theory Spec2Isabelle
  imports Main
begin

section \<open>Python values\<close>

text \<open>
  The cache of \<^verbatim>\<open>scripts/notion.py\<close> is a plain Python dictionary read with
  \<^verbatim>\<open>json.load\<close>, and the search results are the decoded JSON of the remote API.
  Nothing in the source checks their shape, so the model keeps them untyped: a value is
  what \<^verbatim>\<open>json.load\<close> can return (floats left out), a dictionary is an association list
  in insertion order, and every operation that Python would refuse returns the exception
  as a value.  A \<^typ>\<open>char\<close> stands for a code point below U+0100.
\<close>

datatype json =
    JNull
  | JBool bool
  | JInt int
  | JStr string
  | JArr "json list"
  | JObj "(json \<times> json) list"

datatype error =
    AttributeError
  | KeyError
  | TypeError
  | IndexError
  | ValueError
  | OSError
  | HTTPError
  | ClickException string

definition bind :: "error + 'a \<Rightarrow> ('a \<Rightarrow> error + 'b) \<Rightarrow> error + 'b" where
  "bind m f = (case m of Inl e \<Rightarrow> Inl e | Inr v \<Rightarrow> f v)"

text \<open>\<^verbatim>\<open>bool(x)\<close>, as \<^verbatim>\<open>if x\<close>, \<^verbatim>\<open>not x\<close>, \<^verbatim>\<open>x or y\<close> and \<^verbatim>\<open>x and y\<close> use it.\<close>

fun truthy :: "json \<Rightarrow> bool" where
  "truthy JNull = False"
| "truthy (JBool b) = b"
| "truthy (JInt i) = (i \<noteq> 0)"
| "truthy (JStr s) = (s \<noteq> [])"
| "truthy (JArr xs) = (xs \<noteq> [])"
| "truthy (JObj kvs) = (kvs \<noteq> [])"

text \<open>Lists and dictionaries cannot be dictionary keys.\<close>

fun hashable :: "json \<Rightarrow> bool" where
  "hashable (JArr xs) = False"
| "hashable (JObj kvs) = False"
| "hashable v = True"

text \<open>
  Equality of two keys: \<^verbatim>\<open>True == 1\<close> and \<^verbatim>\<open>False == 0\<close> in Python, so a Boolean and
  an integer can name the same dictionary slot.
\<close>

fun key_eq :: "json \<Rightarrow> json \<Rightarrow> bool" where
  "key_eq JNull JNull = True"
| "key_eq (JBool a) (JBool b) = (a = b)"
| "key_eq (JBool a) (JInt j) = (j = (if a then 1 else 0))"
| "key_eq (JInt i) (JBool b) = (i = (if b then 1 else 0))"
| "key_eq (JInt i) (JInt j) = (i = j)"
| "key_eq (JStr s) (JStr t) = (s = t)"
| "key_eq u v = False"

fun dict_find :: "(json \<times> json) list \<Rightarrow> json \<Rightarrow> json option" where
  "dict_find [] k = None"
| "dict_find ((k', v) # kvs) k = (if key_eq k' k then Some v else dict_find kvs k)"

text \<open>\<^verbatim>\<open>d[k] = v\<close> on a dictionary: an existing key keeps its place (and its key object).\<close>

fun dict_set :: "(json \<times> json) list \<Rightarrow> json \<Rightarrow> json \<Rightarrow> (json \<times> json) list" where
  "dict_set [] k v = [(k, v)]"
| "dict_set ((k', v') # kvs) k v =
     (if key_eq k' k then (k', v) # kvs else (k', v') # dict_set kvs k v)"

lemma size_nth_json: "i < length xs \<Longrightarrow> size (xs ! i) < Suc (size_list size xs)"
proof (induction xs arbitrary: i)
  case Nil
  then show ?case by simp
next
  case (Cons a xs)
  show ?case
  proof (cases i)
    case 0
    then show ?thesis by simp
  next
    case (Suc j)
    with Cons.prems have "j < length xs" by simp
    from Cons.IH [OF this] Suc show ?thesis by simp
  qed
qed

lemma size_snd_json:
  "(k, v) \<in> set a \<Longrightarrow> size v < Suc (size_list (size_prod size size) a)"
  by (induction a) auto

text \<open>\<^verbatim>\<open>x == y\<close> on arbitrary values; dictionaries compare without regard to order.\<close>

function py_eq :: "json \<Rightarrow> json \<Rightarrow> bool" where
  "py_eq (JArr xs) (JArr ys) =
     (length xs = length ys \<and> list_all (\<lambda>i. py_eq (xs ! i) (ys ! i)) [0..<length xs])"
| "py_eq (JArr xs) JNull = False"
| "py_eq (JArr xs) (JBool b) = False"
| "py_eq (JArr xs) (JInt j) = False"
| "py_eq (JArr xs) (JStr t) = False"
| "py_eq (JArr xs) (JObj b) = False"
| "py_eq (JObj a) (JObj b) =
     (length a = length b \<and>
      list_all (\<lambda>kv. case dict_find b (fst kv) of None \<Rightarrow> False | Some w \<Rightarrow> py_eq (snd kv) w) a)"
| "py_eq (JObj a) JNull = False"
| "py_eq (JObj a) (JBool b) = False"
| "py_eq (JObj a) (JInt j) = False"
| "py_eq (JObj a) (JStr t) = False"
| "py_eq (JObj a) (JArr ys) = False"
| "py_eq JNull v = key_eq JNull v"
| "py_eq (JBool a) v = key_eq (JBool a) v"
| "py_eq (JInt i) v = key_eq (JInt i) v"
| "py_eq (JStr s) v = key_eq (JStr s) v"
  by pat_completeness auto

termination py_eq
  by (relation "measure (\<lambda>p. size (fst p))") (auto simp: size_nth_json size_snd_json)

text \<open>\<^verbatim>\<open>x.get(k, d)\<close>: only a dictionary has the method.\<close>

fun py_get :: "json \<Rightarrow> json \<Rightarrow> json \<Rightarrow> error + json" where
  "py_get (JObj kvs) k d =
     (if hashable k then Inr (case dict_find kvs k of None \<Rightarrow> d | Some v \<Rightarrow> v)
      else Inl TypeError)"
| "py_get x k d = Inl AttributeError"

text \<open>An index into a list or a string: an integer (a Boolean counts as 0 or 1).\<close>

fun as_index :: "json \<Rightarrow> int option" where
  "as_index (JInt i) = Some i"
| "as_index (JBool b) = Some (if b then 1 else 0)"
| "as_index v = None"

definition seq_pos :: "nat \<Rightarrow> int \<Rightarrow> error + nat" where
  "seq_pos n i =
     (let j = (if i < 0 then i + int n else i)
      in if 0 \<le> j \<and> j < int n then Inr (nat j) else Inl IndexError)"

text \<open>\<^verbatim>\<open>x[k]\<close>\<close>

fun py_getitem :: "json \<Rightarrow> json \<Rightarrow> error + json" where
  "py_getitem (JObj kvs) k =
     (if hashable k
      then (case dict_find kvs k of None \<Rightarrow> Inl KeyError | Some v \<Rightarrow> Inr v)
      else Inl TypeError)"
| "py_getitem (JArr xs) k =
     (case as_index k of
        None \<Rightarrow> Inl TypeError
      | Some i \<Rightarrow> bind (seq_pos (length xs) i) (\<lambda>j. Inr (xs ! j)))"
| "py_getitem (JStr s) k =
     (case as_index k of
        None \<Rightarrow> Inl TypeError
      | Some i \<Rightarrow> bind (seq_pos (length s) i) (\<lambda>j. Inr (JStr [s ! j])))"
| "py_getitem x k = Inl TypeError"

text \<open>\<^verbatim>\<open>x[k] = v\<close>\<close>

fun py_setitem :: "json \<Rightarrow> json \<Rightarrow> json \<Rightarrow> error + json" where
  "py_setitem (JObj kvs) k v =
     (if hashable k then Inr (JObj (dict_set kvs k v)) else Inl TypeError)"
| "py_setitem (JArr xs) k v =
     (case as_index k of
        None \<Rightarrow> Inl TypeError
      | Some i \<Rightarrow> bind (seq_pos (length xs) i) (\<lambda>j. Inr (JArr (xs[j := v]))))"
| "py_setitem x k v = Inl TypeError"

text \<open>
  A statement such as \<^verbatim>\<open>x[k][k2] = v\<close> or \<^verbatim>\<open>x[k].append(v)\<close> changes the object
  stored under \<^verbatim>\<open>x[k]\<close> in place.  The values are trees (nothing is shared between two
  places of the cache), so the model reads the object, changes it and stores it back.
\<close>

definition modify_at :: "json \<Rightarrow> json \<Rightarrow> (json \<Rightarrow> error + json) \<Rightarrow> error + json" where
  "modify_at x k f = bind (py_getitem x k) (\<lambda>v. bind (f v) (\<lambda>v'. py_setitem x k v'))"

fun is_substring :: "string \<Rightarrow> string \<Rightarrow> bool" where
  "is_substring t [] = (t = [])"
| "is_substring t (c # cs) = (take (length t) (c # cs) = t \<or> is_substring t cs)"

text \<open>\<^verbatim>\<open>k in x\<close>\<close>

fun py_contains :: "json \<Rightarrow> json \<Rightarrow> error + bool" where
  "py_contains k (JObj kvs) =
     (if hashable k then Inr (dict_find kvs k \<noteq> None) else Inl TypeError)"
| "py_contains k (JArr xs) = Inr (list_ex (\<lambda>x. py_eq x k) xs)"
| "py_contains k (JStr s) =
     (case k of JStr t \<Rightarrow> Inr (is_substring t s) | _ \<Rightarrow> Inl TypeError)"
| "py_contains k x = Inl TypeError"

fun py_append :: "json \<Rightarrow> json \<Rightarrow> error + json" where
  "py_append (JArr xs) v = Inr (JArr (xs @ [v]))"
| "py_append x v = Inl AttributeError"

fun py_len :: "json \<Rightarrow> error + nat" where
  "py_len (JStr s) = Inr (length s)"
| "py_len (JArr xs) = Inr (length xs)"
| "py_len (JObj kvs) = Inr (length kvs)"
| "py_len x = Inl TypeError"

fun py_items :: "json \<Rightarrow> error + (json \<times> json) list" where
  "py_items (JObj kvs) = Inr kvs"
| "py_items x = Inl AttributeError"

subsection \<open>Strings\<close>

text \<open>
  \<^verbatim>\<open>str.lower\<close> on one character: the capital letters \<open>A\<close> to \<open>Z\<close> and U+00C0 to U+00DE
  (but the multiplication sign U+00D7) move up by 32, which sets bit 5 of the code.
\<close>

definition lower_char :: "char \<Rightarrow> char" where
  "lower_char c =
     (let n = (of_char c :: nat)
      in if (65 \<le> n \<and> n \<le> 90) \<or> (192 \<le> n \<and> n \<le> 222 \<and> n \<noteq> 215)
         then (case c of Char b0 b1 b2 b3 b4 b5 b6 b7 \<Rightarrow> Char b0 b1 b2 b3 b4 True b6 b7)
         else c)"

definition lower :: "string \<Rightarrow> string" where
  "lower s = map lower_char s"

fun py_lower :: "json \<Rightarrow> error + string" where
  "py_lower (JStr s) = Inr (lower s)"
| "py_lower x = Inl AttributeError"

definition is_space :: "char \<Rightarrow> bool" where
  "is_space c =
     (let n = (of_char c :: nat)
      in (9 \<le> n \<and> n \<le> 13) \<or> (28 \<le> n \<and> n \<le> 32) \<or> n = 133 \<or> n = 160)"

definition strip :: "string \<Rightarrow> string" where
  "strip s = rev (dropWhile is_space (rev (dropWhile is_space s)))"

text \<open>\<^verbatim>\<open>s.split("/")\<close>: never empty.\<close>

fun split_slash :: "string \<Rightarrow> string list" where
  "split_slash [] = [[]]"
| "split_slash (c # cs) =
     (if c = CHR ''/'' then [] # split_slash cs
      else (case split_slash cs of [] \<Rightarrow> [[c]] | p # ps \<Rightarrow> (c # p) # ps))"

section \<open>The library and the world outside\<close>

text \<open>
  A \<^verbatim>\<open>datetime\<close> is a count of microseconds; an aware one (with a UTC offset) cannot be
  subtracted from the naive \<^verbatim>\<open>datetime.now()\<close>.
\<close>

datatype pydatetime = Naive int | Aware int

text \<open>
  The standard library is a parameter: \<^verbatim>\<open>json.load\<close> (\<open>None\<close> when it raises),
  \<^verbatim>\<open>json.dump\<close>, \<^verbatim>\<open>datetime.isoformat\<close> and \<^verbatim>\<open>datetime.fromisoformat\<close> (\<open>None\<close> when
  it raises \<^verbatim>\<open>ValueError\<close>).
\<close>

record pylib =
  json_loads :: "string \<Rightarrow> json option"
  json_dumps :: "json \<Rightarrow> string"
  isoformat :: "int \<Rightarrow> string"
  fromisoformat :: "string \<Rightarrow> pydatetime option"

text \<open>
  The cache path, as the calls the class makes on it find it.  The class asks three
  things of the path: whether it exists, to read it, and to write it; \<^verbatim>\<open>__init__\<close> also
  creates the directory above it.  A state of the path is one way these calls answer.
\<close>

datatype disk_file =
    NoFile
  | File string
  | ReadOnly string
  | WriteOnly
  | Unreadable
  | Uncreatable
  | Inaccessible
  | NoDirectory

text \<open>
  \<open>NoFile\<close>: nothing at the path, in a directory that takes a new file.
  \<open>File s\<close>: a regular file holding \<open>s\<close>, open to reading and to writing.
  \<open>ReadOnly s\<close>: a regular file holding \<open>s\<close> that may be read and not written.
  \<open>WriteOnly\<close>: a regular file that may be written and not read.
  \<open>Unreadable\<close>: an entry that \<^verbatim>\<open>open\<close> refuses in both modes, such as a directory.
  \<open>Uncreatable\<close>: nothing at the path, in a directory that takes no new file.
  \<open>Inaccessible\<close>: a path the system refuses to examine (no permission on a
  directory above it, a name that is too long); \<^verbatim>\<open>stat\<close> and \<^verbatim>\<open>open\<close> fail.
  \<open>NoDirectory\<close>: the directory of the path is missing and cannot be created.
\<close>

text \<open>\<^verbatim>\<open>self.cache_path.parent.mkdir(parents=True, exist_ok=True)\<close>\<close>

definition mkdir_parent :: "disk_file \<Rightarrow> error + unit" where
  "mkdir_parent f = (if f = NoDirectory then Inl OSError else Inr ())"

text \<open>
  \<^verbatim>\<open>self.cache_path.exists()\<close>: \<^verbatim>\<open>Path.exists\<close> returns false when \<^verbatim>\<open>stat\<close> finds no entry
  and raises every other \<^verbatim>\<open>OSError\<close> of \<^verbatim>\<open>stat\<close> again.
\<close>

definition path_exists :: "disk_file \<Rightarrow> error + bool" where
  "path_exists f =
     (case f of
        NoFile \<Rightarrow> Inr False
      | Uncreatable \<Rightarrow> Inr False
      | NoDirectory \<Rightarrow> Inr False
      | Inaccessible \<Rightarrow> Inl OSError
      | _ \<Rightarrow> Inr True)"

text \<open>\<^verbatim>\<open>open(self.cache_path, 'r')\<close> and the reading of the whole text.\<close>

definition read_text :: "disk_file \<Rightarrow> error + string" where
  "read_text f =
     (case f of
        File s \<Rightarrow> Inr s
      | ReadOnly s \<Rightarrow> Inr s
      | _ \<Rightarrow> Inl OSError)"

text \<open>
  \<^verbatim>\<open>open(self.cache_path, 'w')\<close> and the writing of a text: the state of the path
  afterwards, or the \<^verbatim>\<open>OSError\<close> of an \<^verbatim>\<open>open\<close> that is refused, which leaves the path
  as it was.  A device that runs out of room in the middle of a write, and what it leaves
  of the file, is not among the states.
\<close>

definition write_text :: "disk_file \<Rightarrow> string \<Rightarrow> error + disk_file" where
  "write_text f s =
     (case f of
        NoFile \<Rightarrow> Inr (File s)
      | File old \<Rightarrow> Inr (File s)
      | WriteOnly \<Rightarrow> Inr WriteOnly
      | _ \<Rightarrow> Inl OSError)"

text \<open>A \<^verbatim>\<open>NotionCache\<close> object: \<^verbatim>\<open>self.data\<close>, and the file at \<^verbatim>\<open>self.cache_path\<close>.\<close>

record cache =
  data :: json
  disk :: disk_file

definition CACHE_TTL_HOURS :: int where
  "CACHE_TTL_HOURS = 24"

text \<open>\<^verbatim>\<open>timedelta(hours=h)\<close> in microseconds.\<close>

definition timedelta_hours :: "int \<Rightarrow> int" where
  "timedelta_hours h = h * 3600 * 1000000"

section \<open>NotionCache\<close>

definition empty_data :: json where
  "empty_data =
     JObj [(JStr ''pages'', JObj []), (JStr ''databases'', JObj []),
           (JStr ''hierarchy'', JObj []), (JStr ''last_refresh'', JNull)]"

text \<open>\<^verbatim>\<open>with open(self.cache_path, 'r') as f: return json.load(f)\<close>\<close>

definition read_json :: "pylib \<Rightarrow> disk_file \<Rightarrow> error + json" where
  "read_json L f =
     bind (read_text f) (\<lambda>content.
       case json_loads L content of None \<Rightarrow> Inl ValueError | Some j \<Rightarrow> Inr j)"

text \<open>
  \<^verbatim>\<open>NotionCache._load\<close>.  The call of \<^verbatim>\<open>exists\<close> stands before the \<^verbatim>\<open>try\<close> block, so
  its exception leaves \<^verbatim>\<open>_load\<close>; the \<^verbatim>\<open>try\<close> block catches every exception of the
  reading and the parsing.
\<close>

definition load :: "pylib \<Rightarrow> disk_file \<Rightarrow> error + json" where
  "load L f =
     bind (path_exists f) (\<lambda>there.
       if \<not> there then Inr empty_data
       else (case read_json L f of Inl e \<Rightarrow> Inr empty_data | Inr j \<Rightarrow> Inr j))"

text \<open>\<^verbatim>\<open>NotionCache.__init__\<close>: the object, or the exception of \<^verbatim>\<open>mkdir\<close> or \<^verbatim>\<open>_load\<close>.\<close>

definition init :: "pylib \<Rightarrow> disk_file \<Rightarrow> error + cache" where
  "init L f =
     bind (mkdir_parent f) (\<lambda>u.
     bind (load L f) (\<lambda>d.
     Inr \<lparr>data = d, disk = f\<rparr>))"

text \<open>
  \<^verbatim>\<open>NotionCache._save\<close>: no \<^verbatim>\<open>try\<close> block, so the exception of \<^verbatim>\<open>open\<close> leaves
  \<^verbatim>\<open>_save\<close>.  The result is the exception raised, if any, and the object afterwards.
\<close>

definition save :: "pylib \<Rightarrow> cache \<Rightarrow> error option \<times> cache" where
  "save L c =
     (case write_text (disk c) (json_dumps L (data c)) of
        Inl e \<Rightarrow> (Some e, c)
      | Inr f \<Rightarrow> (None, c\<lparr>disk := f\<rparr>))"

text \<open>\<^verbatim>\<open>NotionCache.is_stale\<close>, with the reading of \<^verbatim>\<open>datetime.now()\<close>.\<close>

definition is_stale :: "pylib \<Rightarrow> int \<Rightarrow> cache \<Rightarrow> error + bool" where
  "is_stale L now c =
     bind (py_get (data c) (JStr ''last_refresh'') JNull) (\<lambda>r.
       if \<not> truthy r then Inr True
       else bind (py_getitem (data c) (JStr ''last_refresh'')) (\<lambda>s.
         case s of
           JStr txt \<Rightarrow>
             (case fromisoformat L txt of
                None \<Rightarrow> Inl ValueError
              | Some (Aware t) \<Rightarrow> Inl TypeError
              | Some (Naive last_refresh) \<Rightarrow>
                  Inr (now - last_refresh > timedelta_hours CACHE_TTL_HOURS))
         | _ \<Rightarrow> Inl TypeError))"

subsection \<open>update_from_search\<close>

text \<open>
  The title of a search result.  For a page: \<^verbatim>\<open>props.get("title") or props.get("Name")\<close>,
  then the first element of its \<^verbatim>\<open>title\<close> array; for a database the first element of the
  result's own \<^verbatim>\<open>title\<close> array.
\<close>

definition extract_title :: "json \<Rightarrow> json \<Rightarrow> error + json" where
  "extract_title obj_type item =
     (if py_eq obj_type (JStr ''page'') then
        bind (py_get item (JStr ''properties'') (JObj [])) (\<lambda>props.
        bind (py_get props (JStr ''title'') JNull) (\<lambda>t.
        bind (if truthy t then Inr t else py_get props (JStr ''Name'') JNull) (\<lambda>title_prop.
        if \<not> truthy title_prop then Inr (JStr ''Untitled'')
        else bind (py_get title_prop (JStr ''title'') JNull) (\<lambda>arr.
          if \<not> truthy arr then Inr (JStr ''Untitled'')
          else bind (py_getitem title_prop (JStr ''title'')) (\<lambda>arr'.
               bind (py_getitem arr' (JInt 0)) (\<lambda>first.
               py_get first (JStr ''plain_text'') (JStr ''Untitled'')))))))
      else if py_eq obj_type (JStr ''database'') then
        bind (py_get item (JStr ''title'') JNull) (\<lambda>t.
        if \<not> truthy t then Inr (JStr ''Untitled'')
        else bind (py_getitem item (JStr ''title'')) (\<lambda>arr.
             bind (py_len arr) (\<lambda>n.
             if n > 0
             then bind (py_getitem item (JStr ''title'')) (\<lambda>arr'.
                  bind (py_getitem arr' (JInt 0)) (\<lambda>first.
                  py_get first (JStr ''plain_text'') (JStr ''Untitled'')))
             else Inr (JStr ''Untitled''))))
      else Inr (JStr ''Untitled''))"

text \<open>
  \<^verbatim>\<open>parent.get("page_id") or parent.get("database_id") or parent.get("workspace")\<close>
\<close>

definition parent_of :: "json \<Rightarrow> error + json" where
  "parent_of parent =
     bind (py_get parent (JStr ''page_id'') JNull) (\<lambda>a.
     if truthy a then Inr a
     else bind (py_get parent (JStr ''database_id'') JNull) (\<lambda>b.
          if truthy b then Inr b
          else py_get parent (JStr ''workspace'') JNull))"

text \<open>
  What one iteration reads from a search result before it touches the cache: the kind,
  the identifier, the title, the parent identifier, the URL and the archived flag.
\<close>

definition read_result :: "json \<Rightarrow> error + (json \<times> json \<times> json \<times> json \<times> json \<times> json)" where
  "read_result item =
     bind (py_get item (JStr ''object'') JNull) (\<lambda>obj_type.
     bind (py_get item (JStr ''id'') JNull) (\<lambda>item_id.
     bind (extract_title obj_type item) (\<lambda>title.
     bind (py_get item (JStr ''parent'') (JObj [])) (\<lambda>parent.
     bind (parent_of parent) (\<lambda>parent_id.
     bind (py_get item (JStr ''url'') JNull) (\<lambda>url.
     bind (py_get item (JStr ''archived'') (JBool False)) (\<lambda>archived.
     Inr (obj_type, item_id, title, parent_id, url, archived))))))))"

text \<open>The dictionary \<^verbatim>\<open>cache_entry\<close>, with \<^verbatim>\<open>datetime.now().isoformat()\<close>.\<close>

definition cache_entry ::
  "pylib \<Rightarrow> int \<Rightarrow> json \<Rightarrow> json \<Rightarrow> json \<Rightarrow> json \<Rightarrow> json \<Rightarrow> json" where
  "cache_entry L now item_id title parent_id url archived =
     JObj [(JStr ''id'', item_id),
           (JStr ''title'', title),
           (JStr ''parent_id'', parent_id),
           (JStr ''url'', url),
           (JStr ''last_seen'', JStr (isoformat L now)),
           (JStr ''archived'', archived)]"

text \<open>
  A statement that changes \<^verbatim>\<open>self.data\<close> either raises and leaves it as it was, or
  succeeds.  A result is the exception raised, if any, and \<^verbatim>\<open>self.data\<close> afterwards.
\<close>

definition attempt :: "json \<Rightarrow> error + json \<Rightarrow> error option \<times> json" where
  "attempt d r = (case r of Inl e \<Rightarrow> (Some e, d) | Inr d' \<Rightarrow> (None, d'))"

definition then_do ::
  "error option \<times> json \<Rightarrow> (json \<Rightarrow> error option \<times> json) \<Rightarrow> error option \<times> json" where
  "then_do r f = (case r of (Some e, d) \<Rightarrow> (Some e, d) | (None, d) \<Rightarrow> f d)"

text \<open>\<^verbatim>\<open>self.data["pages"][item_id] = cache_entry\<close>, or the same under \<^verbatim>\<open>"databases"\<close>.\<close>

definition store_entry :: "json \<Rightarrow> json \<Rightarrow> json \<Rightarrow> json \<Rightarrow> error + json" where
  "store_entry obj_type item_id entry d =
     (if py_eq obj_type (JStr ''page'')
      then modify_at d (JStr ''pages'') (\<lambda>coll. py_setitem coll item_id entry)
      else if py_eq obj_type (JStr ''database'')
      then modify_at d (JStr ''databases'') (\<lambda>coll. py_setitem coll item_id entry)
      else Inr d)"

text \<open>The block under \<^verbatim>\<open># Update hierarchy\<close>.\<close>

definition update_hierarchy :: "json \<Rightarrow> json \<Rightarrow> json \<Rightarrow> error option \<times> json" where
  "update_hierarchy parent_id item_id d =
     (if truthy parent_id \<and> \<not> py_eq parent_id (JStr ''workspace'') then
        (case bind (py_getitem d (JStr ''hierarchy'')) (py_contains parent_id) of
           Inl e \<Rightarrow> (Some e, d)
         | Inr known \<Rightarrow>
             then_do
               (if \<not> known
                then attempt d (modify_at d (JStr ''hierarchy'')
                                  (\<lambda>h. py_setitem h parent_id (JArr [])))
                else (None, d))
               (\<lambda>d1.
                  case bind (py_getitem d1 (JStr ''hierarchy'')) (\<lambda>h.
                       bind (py_getitem h parent_id) (py_contains item_id)) of
                    Inl e \<Rightarrow> (Some e, d1)
                  | Inr present \<Rightarrow>
                      if \<not> present
                      then attempt d1 (modify_at d1 (JStr ''hierarchy'')
                                         (\<lambda>h. modify_at h parent_id (\<lambda>l. py_append l item_id)))
                      else (None, d1)))
      else (None, d))"

text \<open>The body of the loop, for one search result.\<close>

definition update_item :: "pylib \<Rightarrow> int \<Rightarrow> json \<Rightarrow> json \<Rightarrow> error option \<times> json" where
  "update_item L now item d =
     (case read_result item of
        Inl e \<Rightarrow> (Some e, d)
      | Inr (obj_type, item_id, title, parent_id, url, archived) \<Rightarrow>
          then_do (attempt d (store_entry obj_type item_id
                                (cache_entry L now item_id title parent_id url archived) d))
                  (update_hierarchy parent_id item_id))"

text \<open>
  The loop over the results.  \<open>clock i\<close> is the value of the \<open>i\<close>-th call of
  \<^verbatim>\<open>datetime.now()\<close> inside one \<^verbatim>\<open>update_from_search\<close>: one call for each result, and a
  last one for \<^verbatim>\<open>last_refresh\<close>.
\<close>

fun update_loop ::
  "pylib \<Rightarrow> (nat \<Rightarrow> int) \<Rightarrow> nat \<Rightarrow> json list \<Rightarrow> json \<Rightarrow> error option \<times> json" where
  "update_loop L clock i [] d = (None, d)"
| "update_loop L clock i (item # rest) d =
     then_do (update_item L (clock i) item d) (update_loop L clock (Suc i) rest)"

definition update_from_search ::
  "pylib \<Rightarrow> (nat \<Rightarrow> int) \<Rightarrow> json list \<Rightarrow> cache \<Rightarrow> error option \<times> cache" where
  "update_from_search L clock results c =
     (case update_loop L clock 0 results (data c) of
        (Some e, d) \<Rightarrow> (Some e, c\<lparr>data := d\<rparr>)
      | (None, d) \<Rightarrow>
          (case py_setitem d (JStr ''last_refresh'')
                  (JStr (isoformat L (clock (length results)))) of
             Inl e \<Rightarrow> (Some e, c\<lparr>data := d\<rparr>)
           | Inr d' \<Rightarrow> save L (c\<lparr>data := d'\<rparr>)))"

subsection \<open>find_by_path and get_title\<close>

text \<open>
  The loop of \<^verbatim>\<open>_find_by_title\<close> over \<^verbatim>\<open>collection.items()\<close>: it visits every entry,
  so an entry it cannot read raises even after a match.  \<open>JNull\<close> is \<^verbatim>\<open>None\<close>.
\<close>

fun title_matches :: "(json \<times> json) list \<Rightarrow> string \<Rightarrow> json \<Rightarrow> error + json list" where
  "title_matches [] title parent_id = Inr []"
| "title_matches ((item_id, item) # rest) title parent_id =
     bind (py_getitem item (JStr ''title'')) (\<lambda>t.
     bind (py_lower t) (\<lambda>tl.
     bind (if tl = lower title
           then (if parent_id = JNull then Inr True
                 else bind (py_get item (JStr ''parent_id'') JNull) (\<lambda>p.
                      Inr (py_eq p parent_id)))
           else Inr False) (\<lambda>hit.
     bind (title_matches rest title parent_id) (\<lambda>matches.
     Inr (if hit then item_id # matches else matches)))))"

definition find_by_title :: "cache \<Rightarrow> string \<Rightarrow> string \<Rightarrow> json \<Rightarrow> error + json" where
  "find_by_title c title obj_type parent_id =
     bind (py_get (data c) (JStr (if obj_type = ''page'' then ''pages'' else ''databases''))
             (JObj [])) (\<lambda>collection.
     bind (py_items collection) (\<lambda>kvs.
     bind (title_matches kvs title parent_id) (\<lambda>matches.
     Inr (case matches of [] \<Rightarrow> JNull | m # ms \<Rightarrow> m))))"

text \<open>
  The loop of \<^verbatim>\<open>find_by_path\<close> over \<^verbatim>\<open>enumerate(parts)\<close>, from index \<open>i\<close> on, with
  \<^verbatim>\<open>current_id\<close>.
\<close>

fun traverse :: "cache \<Rightarrow> string \<Rightarrow> nat \<Rightarrow> json \<Rightarrow> string list \<Rightarrow> error + json" where
  "traverse c obj_type i current_id [] = Inr current_id"
| "traverse c obj_type i current_id (part # rest) =
     bind (if i = 0 then find_by_title c part obj_type JNull
           else find_by_title c part obj_type current_id) (\<lambda>found.
     if \<not> truthy found then Inr JNull
     else traverse c obj_type (Suc i) found rest)"

definition find_by_path :: "cache \<Rightarrow> string \<Rightarrow> string \<Rightarrow> error + json" where
  "find_by_path c path obj_type =
     (let parts = map strip (split_slash path)
      in if length parts = 1 then find_by_title c (parts ! 0) obj_type JNull
         else traverse c obj_type 0 JNull parts)"

text \<open>\<^verbatim>\<open>NotionCache.get_title\<close>: the loop over \<^verbatim>\<open>["pages", "databases"]\<close>.\<close>

fun get_title_in :: "cache \<Rightarrow> json \<Rightarrow> string list \<Rightarrow> error + json" where
  "get_title_in c item_id [] = Inr JNull"
| "get_title_in c item_id (collection # rest) =
     bind (py_get (data c) (JStr collection) (JObj [])) (\<lambda>coll.
     bind (py_get coll item_id JNull) (\<lambda>item.
     if truthy item then py_getitem item (JStr ''title'')
     else get_title_in c item_id rest))"

definition get_title :: "cache \<Rightarrow> json \<Rightarrow> error + json" where
  "get_title c item_id = get_title_in c item_id [''pages'', ''databases'']"

section \<open>resolve_id\<close>

definition is_uuid :: "string \<Rightarrow> bool" where
  "is_uuid v =
     (let cleaned = filter (\<lambda>c. c \<noteq> CHR ''-'') v
      in length cleaned = 32 \<and> list_all (\<lambda>c. c \<in> set ''0123456789abcdef'') (lower cleaned))"

text \<open>
  What \<^verbatim>\<open>resolve_id\<close> does besides returning: the calls it makes on the cache and on the
  network, in order.
\<close>

datatype event =
    FindByPath string string
  | Echo string
  | SearchNotion string string
  | UpdateFromSearch "json list"

definition not_found :: "string \<Rightarrow> string \<Rightarrow> error" where
  "not_found obj_type name_or_id =
     ClickException (''Could not find '' @ obj_type @ '' '' @ [CHR 0x27] @ name_or_id @ [CHR 0x27])"

text \<open>
  \<^verbatim>\<open>resolve_id\<close>.  \<open>search query filter_type\<close> is \<^verbatim>\<open>search_notion\<close> with the API key: the
  results of the remote search, or the exception of a failed request.  The result is the
  value returned or the exception raised, the cache afterwards, and the calls made.
\<close>

definition resolve_id ::
  "pylib \<Rightarrow> (nat \<Rightarrow> int) \<Rightarrow> (string \<Rightarrow> string \<Rightarrow> error + json list) \<Rightarrow>
   cache \<Rightarrow> string \<Rightarrow> string \<Rightarrow> (error + json) \<times> cache \<times> event list" where
  "resolve_id L clock search c name_or_id obj_type =
     (if is_uuid name_or_id then (Inr (JStr name_or_id), c, [])
      else
        (case find_by_path c name_or_id obj_type of
           Inl e \<Rightarrow> (Inl e, c, [FindByPath name_or_id obj_type])
         | Inr resolved_id \<Rightarrow>
             if truthy resolved_id
             then (Inr resolved_id, c, [FindByPath name_or_id obj_type])
             else
               (let query = last (split_slash name_or_id);
                    evs = [FindByPath name_or_id obj_type, Echo name_or_id,
                           SearchNotion query obj_type]
                in case search query obj_type of
                     Inl e \<Rightarrow> (Inl e, c, evs)
                   | Inr results \<Rightarrow>
                       if results \<noteq> [] then
                         (case update_from_search L clock results c of
                            (Some e, c') \<Rightarrow> (Inl e, c', evs @ [UpdateFromSearch results])
                          | (None, c') \<Rightarrow>
                              (let evs' = evs @ [UpdateFromSearch results,
                                                 FindByPath name_or_id obj_type]
                               in case find_by_path c' name_or_id obj_type of
                                    Inl e \<Rightarrow> (Inl e, c', evs')
                                  | Inr resolved_id' \<Rightarrow>
                                      if truthy resolved_id'
                                      then (Inr resolved_id', c', evs')
                                      else (Inl (not_found obj_type name_or_id), c', evs')))
                       else (Inl (not_found obj_type name_or_id), c, evs))))"

section \<open>The methods of a cache as calls\<close>

text \<open>
  A call of a method of a \<^verbatim>\<open>NotionCache\<close> object gives an outcome and leaves the object
  (its \<^verbatim>\<open>data\<close> and its file) in some state.  \<^verbatim>\<open>is_stale\<close>, \<^verbatim>\<open>find_by_path\<close> (with
  \<^verbatim>\<open>_find_by_title\<close>) and \<^verbatim>\<open>get_title\<close> contain no assignment into \<^verbatim>\<open>self.data\<close>
  and no call of \<^verbatim>\<open>_save\<close>; \<^verbatim>\<open>update_from_search\<close> does both.
\<close>

datatype invocation =
    Is_stale int
  | Find_by_path string string
  | Get_title json
  | Update_from_search "nat \<Rightarrow> int" "json list"

datatype outcome = Raises error | Returns json

definition outcome_of :: "error + json \<Rightarrow> outcome" where
  "outcome_of r = (case r of Inl e \<Rightarrow> Raises e | Inr v \<Rightarrow> Returns v)"

fun call :: "pylib \<Rightarrow> invocation \<Rightarrow> cache \<Rightarrow> outcome \<times> cache" where
  "call L (Is_stale now) c =
     (case is_stale L now c of Inl e \<Rightarrow> Raises e | Inr b \<Rightarrow> Returns (JBool b), c)"
| "call L (Find_by_path path obj_type) c = (outcome_of (find_by_path c path obj_type), c)"
| "call L (Get_title item_id) c = (outcome_of (get_title c item_id), c)"
| "call L (Update_from_search clock results) c =
     (case update_from_search L clock results c of
        (Some e, c') \<Rightarrow> (Raises e, c')
      | (None, c') \<Rightarrow> (Returns JNull, c'))"

text \<open>A sequence of calls on one object; a call that raises does not end the sequence.\<close>

fun run :: "pylib \<Rightarrow> invocation list \<Rightarrow> cache \<Rightarrow> cache" where
  "run L [] c = c"
| "run L (m # ms) c = run L ms (snd (call L m c))"

fun is_read :: "invocation \<Rightarrow> bool" where
  "is_read (Update_from_search clock results) = False"
| "is_read m = True"

section \<open>The documented shape of the cache and of a search result\<close>

text \<open>
  The cache as \<^verbatim>\<open>_load\<close> creates it and \<^verbatim>\<open>update_from_search\<close> maintains it: the four
  keys, with dictionaries under the first three.
\<close>

definition cache_data ::
  "(json \<times> json) list \<Rightarrow> (json \<times> json) list \<Rightarrow> (json \<times> json) list \<Rightarrow> json \<Rightarrow> json" where
  "cache_data pages databases hierarchy last_refresh =
     JObj [(JStr ''pages'', JObj pages), (JStr ''databases'', JObj databases),
           (JStr ''hierarchy'', JObj hierarchy), (JStr ''last_refresh'', last_refresh)]"

fun is_str :: "json \<Rightarrow> bool" where
  "is_str (JStr s) = True"
| "is_str v = False"

fun is_bool :: "json \<Rightarrow> bool" where
  "is_bool (JBool b) = True"
| "is_bool v = False"

fun is_arr :: "json \<Rightarrow> bool" where
  "is_arr (JArr xs) = True"
| "is_arr v = False"

text \<open>A cache entry is a dictionary with a string under \<^verbatim>\<open>title\<close>.\<close>

definition wf_entry :: "json \<Rightarrow> bool" where
  "wf_entry e =
     (case e of
        JObj f \<Rightarrow> (case dict_find f (JStr ''title'') of Some (JStr t) \<Rightarrow> True | _ \<Rightarrow> False)
      | _ \<Rightarrow> False)"

definition wf_collection :: "(json \<times> json) list \<Rightarrow> bool" where
  "wf_collection kvs = list_all (\<lambda>kv. wf_entry (snd kv)) kvs"

text \<open>The hierarchy index maps a parent to a list.\<close>

definition wf_hierarchy :: "(json \<times> json) list \<Rightarrow> bool" where
  "wf_hierarchy kvs = list_all (\<lambda>kv. is_arr (snd kv)) kvs"

text \<open>\<^verbatim>\<open>last_refresh\<close> is \<^verbatim>\<open>None\<close> or the ISO text of a naive \<^verbatim>\<open>datetime\<close>.\<close>

definition wf_refresh :: "pylib \<Rightarrow> json \<Rightarrow> bool" where
  "wf_refresh L r =
     (case r of
        JNull \<Rightarrow> True
      | JStr txt \<Rightarrow> (case fromisoformat L txt of Some (Naive t) \<Rightarrow> True | _ \<Rightarrow> False)
      | _ \<Rightarrow> False)"

definition entry_title :: "json \<Rightarrow> string" where
  "entry_title e =
     (case e of
        JObj f \<Rightarrow> (case dict_find f (JStr ''title'') of Some (JStr t) \<Rightarrow> t | _ \<Rightarrow> [])
      | _ \<Rightarrow> [])"

definition entry_parent :: "json \<Rightarrow> json" where
  "entry_parent e =
     (case e of
        JObj f \<Rightarrow> (case dict_find f (JStr ''parent_id'') of Some p \<Rightarrow> p | None \<Rightarrow> JNull)
      | _ \<Rightarrow> JNull)"

text \<open>The title of an entry equals a path segment, case ignored.\<close>

definition title_is :: "string \<Rightarrow> json \<times> json \<Rightarrow> bool" where
  "title_is title kv = (lower (entry_title (snd kv)) = lower title)"

text \<open>The collection \<^verbatim>\<open>_find_by_title\<close> reads for a kind.\<close>

definition collection_of :: "cache \<Rightarrow> string \<Rightarrow> error + json" where
  "collection_of c obj_type =
     py_get (data c) (JStr (if obj_type = ''page'' then ''pages'' else ''databases'')) (JObj [])"

text \<open>
  A search result of the remote API: an object with a string \<^verbatim>\<open>id\<close>, of kind
  \<^verbatim>\<open>page\<close> or \<^verbatim>\<open>database\<close>.  A title array is empty or starts with an object whose
  \<^verbatim>\<open>plain_text\<close>, if any, is a string; the properties \<^verbatim>\<open>title\<close> and \<^verbatim>\<open>Name\<close> of a page
  are objects; the parent is an object whose \<^verbatim>\<open>page_id\<close> and \<^verbatim>\<open>database_id\<close> are
  strings and whose \<^verbatim>\<open>workspace\<close> is a Boolean or a string.
\<close>

definition wf_opt :: "(json \<Rightarrow> bool) \<Rightarrow> json option \<Rightarrow> bool" where
  "wf_opt ok v = (case v of None \<Rightarrow> True | Some x \<Rightarrow> ok x)"

definition wf_rich_text :: "json \<Rightarrow> bool" where
  "wf_rich_text a =
     (case a of
        JArr xs \<Rightarrow>
          (case xs of
             [] \<Rightarrow> True
           | x # rest \<Rightarrow>
               (case x of
                  JObj f \<Rightarrow> wf_opt is_str (dict_find f (JStr ''plain_text''))
                | _ \<Rightarrow> False))
      | _ \<Rightarrow> False)"

definition wf_title_prop :: "json \<Rightarrow> bool" where
  "wf_title_prop p =
     (case p of JObj f \<Rightarrow> wf_opt wf_rich_text (dict_find f (JStr ''title'')) | _ \<Rightarrow> False)"

definition wf_page_props :: "json \<Rightarrow> bool" where
  "wf_page_props props =
     (case props of
        JObj ps \<Rightarrow> wf_opt wf_title_prop (dict_find ps (JStr ''title''))
                  \<and> wf_opt wf_title_prop (dict_find ps (JStr ''Name''))
      | _ \<Rightarrow> False)"

definition wf_parent :: "json \<Rightarrow> bool" where
  "wf_parent parent =
     (case parent of
        JObj f \<Rightarrow> wf_opt is_str (dict_find f (JStr ''page_id''))
                 \<and> wf_opt is_str (dict_find f (JStr ''database_id''))
                 \<and> wf_opt (\<lambda>w. is_bool w \<or> is_str w) (dict_find f (JStr ''workspace''))
      | _ \<Rightarrow> False)"

definition wf_result :: "json \<Rightarrow> bool" where
  "wf_result item =
     (case item of
        JObj f \<Rightarrow>
          wf_opt is_str (dict_find f (JStr ''id'')) \<and> dict_find f (JStr ''id'') \<noteq> None
          \<and> (dict_find f (JStr ''object'') = Some (JStr ''page'')
                \<and> wf_opt wf_page_props (dict_find f (JStr ''properties''))
              \<or> dict_find f (JStr ''object'') = Some (JStr ''database'')
                \<and> wf_opt wf_rich_text (dict_find f (JStr ''title'')))
          \<and> wf_opt wf_parent (dict_find f (JStr ''parent''))
      | _ \<Rightarrow> False)"

text \<open>The kind, the identifier and the parent identifier the loop derives from a result.\<close>

definition result_kind :: "json \<Rightarrow> json" where
  "result_kind item =
     (case read_result item of
        Inl e \<Rightarrow> JNull
      | Inr (obj_type, item_id, title, parent_id, url, archived) \<Rightarrow> obj_type)"

definition result_id :: "json \<Rightarrow> json" where
  "result_id item =
     (case read_result item of
        Inl e \<Rightarrow> JNull
      | Inr (obj_type, item_id, title, parent_id, url, archived) \<Rightarrow> item_id)"

definition result_parent :: "json \<Rightarrow> json" where
  "result_parent item =
     (case read_result item of
        Inl e \<Rightarrow> JNull
      | Inr (obj_type, item_id, title, parent_id, url, archived) \<Rightarrow> parent_id)"

text \<open>The entry the loop stores for a result read at the instant \<open>now\<close>.\<close>

definition result_entry :: "pylib \<Rightarrow> int \<Rightarrow> json \<Rightarrow> json" where
  "result_entry L now item =
     (case read_result item of
        Inl e \<Rightarrow> JNull
      | Inr (obj_type, item_id, title, parent_id, url, archived) \<Rightarrow>
          cache_entry L now item_id title parent_id url archived)"

text \<open>The keys of a mapping of the cache.\<close>

definition mapping_keys :: "cache \<Rightarrow> string \<Rightarrow> json list" where
  "mapping_keys c name =
     (case py_get (data c) (JStr name) (JObj []) of
        Inr (JObj kvs) \<Rightarrow> map fst kvs
      | _ \<Rightarrow> [])"

text \<open>The path takes a write: \<^verbatim>\<open>open(self.cache_path, 'w')\<close> is not refused.\<close>

definition writable :: "disk_file \<Rightarrow> bool" where
  "writable f = (case write_text f [] of Inl e \<Rightarrow> False | Inr f' \<Rightarrow> True)"

text \<open>
  The content of a cache without its time stamps: every entry of \<^verbatim>\<open>pages\<close> and of
  \<^verbatim>\<open>databases\<close> without its field \<^verbatim>\<open>last_seen\<close>, and \<^verbatim>\<open>last_refresh\<close> set to \<^verbatim>\<open>None\<close>.
\<close>

definition without_last_seen :: "json \<Rightarrow> json" where
  "without_last_seen e =
     (case e of
        JObj f \<Rightarrow> JObj (filter (\<lambda>kv. fst kv \<noteq> JStr ''last_seen'') f)
      | _ \<Rightarrow> e)"

definition entries_without_last_seen :: "json \<Rightarrow> json" where
  "entries_without_last_seen coll =
     (case coll of
        JObj es \<Rightarrow> JObj (map (\<lambda>kv. (fst kv, without_last_seen (snd kv))) es)
      | _ \<Rightarrow> coll)"

definition timeless :: "json \<Rightarrow> json" where
  "timeless d =
     (case d of
        JObj kvs \<Rightarrow>
          JObj (map (\<lambda>kv.
                  if fst kv = JStr ''pages'' \<or> fst kv = JStr ''databases''
                  then (fst kv, entries_without_last_seen (snd kv))
                  else if fst kv = JStr ''last_refresh'' then (fst kv, JNull)
                  else kv) kvs)
      | _ \<Rightarrow> d)"

section \<open>Notions used in the proofs\<close>

text \<open>
  The identifiers and parent identifiers of well-formed results are \<^verbatim>\<open>None\<close>, Booleans or
  strings; on these, equality of keys is equality.
\<close>

fun is_plain :: "json \<Rightarrow> bool" where
  "is_plain JNull = True"
| "is_plain (JBool b) = True"
| "is_plain (JStr s) = True"
| "is_plain v = False"

text \<open>The guard of the hierarchy block: \<^verbatim>\<open>parent_id and parent_id != "workspace"\<close>.\<close>

definition is_real_parent :: "json \<Rightarrow> bool" where
  "is_real_parent p = (truthy p \<and> \<not> py_eq p (JStr ''workspace''))"

text \<open>
  The hierarchy block on an index whose values are lists: create the list of the parent
  if it has none, append the child if it is not in the list.
\<close>

definition add_child :: "(json \<times> json) list \<Rightarrow> json \<Rightarrow> json \<Rightarrow> (json \<times> json) list" where
  "add_child H p i =
     (let H1 = (if dict_find H p = None then dict_set H p (JArr []) else H)
      in case dict_find H1 p of
           Some (JArr xs) \<Rightarrow>
             if list_ex (\<lambda>x. py_eq x i) xs then H1 else dict_set H1 p (JArr (xs @ [i]))
         | _ \<Rightarrow> H1)"

definition link :: "(json \<times> json) list \<Rightarrow> json \<Rightarrow> json \<Rightarrow> (json \<times> json) list" where
  "link H p i = (if is_real_parent p then add_child H p i else H)"

text \<open>
  The assignments one run of the loop makes into the mapping of a kind, in order, and
  the parent and child pairs it offers to the hierarchy block.
\<close>

fun writes :: "string \<Rightarrow> pylib \<Rightarrow> (nat \<Rightarrow> int) \<Rightarrow> nat \<Rightarrow> json list \<Rightarrow> (json \<times> json) list" where
  "writes k L clock i [] = []"
| "writes k L clock i (item # rest) =
     (if result_kind item = JStr k then [(result_id item, result_entry L (clock i) item)] else [])
     @ writes k L clock (Suc i) rest"

fun links :: "json list \<Rightarrow> (json \<times> json) list" where
  "links [] = []"
| "links (item # rest) = (result_parent item, result_id item) # links rest"

definition apply_writes :: "(json \<times> json) list \<Rightarrow> (json \<times> json) list \<Rightarrow> (json \<times> json) list" where
  "apply_writes S P = fold (\<lambda>kv m. dict_set m (fst kv) (snd kv)) S P"

definition apply_links :: "(json \<times> json) list \<Rightarrow> (json \<times> json) list \<Rightarrow> (json \<times> json) list" where
  "apply_links K H = fold (\<lambda>kv h. link h (fst kv) (snd kv)) K H"

text \<open>The value a key holds after a list of assignments, when it held \<open>b\<close> before.\<close>

definition last_value :: "(json \<times> json) list \<Rightarrow> json \<Rightarrow> json \<Rightarrow> json" where
  "last_value S a b = fold (\<lambda>kv acc. if fst kv = a then snd kv else acc) S b"

text \<open>The child is in the list of the parent.\<close>

definition present :: "json \<Rightarrow> json \<Rightarrow> (json \<times> json) list \<Rightarrow> bool" where
  "present p i H = (\<exists>xs. dict_find H p = Some (JArr xs) \<and> list_ex (\<lambda>x. py_eq x i) xs)"

definition wf_links :: "(json \<times> json) list \<Rightarrow> bool" where
  "wf_links K = list_all (\<lambda>kv. is_plain (fst kv) \<and> is_str (snd kv)) K"

text \<open>
  The identifiers a list of calls reports under a kind, and the calls whose results are
  well-formed.
\<close>

fun reported :: "string \<Rightarrow> invocation list \<Rightarrow> json list" where
  "reported k [] = []"
| "reported k (Update_from_search clock R # ms) =
     map result_id (filter (\<lambda>item. result_kind item = JStr k) R) @ reported k ms"
| "reported k (m # ms) = reported k ms"

fun results_ok :: "invocation \<Rightarrow> bool" where
  "results_ok (Update_from_search clock R) = list_all wf_result R"
| "results_ok m = True"

section \<open>Example values\<close>

text \<open>
  A library for the examples: it knows the texts \<^verbatim>\<open>{}\<close> and \<^verbatim>\<open>[]\<close>, and two instants
  one microsecond apart.
\<close>

definition example_lib :: pylib where
  "example_lib =
     \<lparr>json_loads = (\<lambda>txt. if txt = ''{}'' then Some (JObj [])
                           else if txt = ''[]'' then Some (JArr []) else None),
      json_dumps = (\<lambda>j. if j = JObj [] then ''{}'' else if j = JArr [] then ''[]'' else ''{...}''),
      isoformat = (\<lambda>t. if t = 0 then ''2026-01-01T00:00:00''
                         else ''2026-01-01T00:00:00.000001''),
      fromisoformat = (\<lambda>txt. if txt = ''2026-01-01T00:00:00'' then Some (Naive 0)
                              else if txt = ''2026-01-01T00:00:00.000001'' then Some (Naive 1)
                              else None)\<rparr>"

definition example_page :: "string \<Rightarrow> string \<Rightarrow> json \<Rightarrow> json" where
  "example_page item_id title parent =
     JObj [(JStr ''object'', JStr ''page''),
           (JStr ''id'', JStr item_id),
           (JStr ''properties'',
              JObj [(JStr ''title'',
                       JObj [(JStr ''title'', JArr [JObj [(JStr ''plain_text'', JStr title)]])])]),
           (JStr ''parent'', parent),
           (JStr ''url'', JStr ''u''),
           (JStr ''archived'', JBool False)]"

definition example_database :: "string \<Rightarrow> string \<Rightarrow> json \<Rightarrow> json" where
  "example_database item_id title parent =
     JObj [(JStr ''object'', JStr ''database''),
           (JStr ''id'', JStr item_id),
           (JStr ''title'', JArr [JObj [(JStr ''plain_text'', JStr title)]]),
           (JStr ''parent'', parent),
           (JStr ''url'', JStr ''u''),
           (JStr ''archived'', JBool False)]"

definition workspace_parent :: json where
  "workspace_parent = JObj [(JStr ''type'', JStr ''workspace''), (JStr ''workspace'', JBool True)]"

definition page_parent :: "string \<Rightarrow> json" where
  "page_parent parent_id = JObj [(JStr ''type'', JStr ''page_id''), (JStr ''page_id'', JStr parent_id)]"

text \<open>A cache entry as the tests of the repository write them by hand.\<close>

definition example_entry :: "string \<Rightarrow> string \<Rightarrow> json \<Rightarrow> json" where
  "example_entry item_id title parent_id =
     JObj [(JStr ''id'', JStr item_id), (JStr ''title'', JStr title),
           (JStr ''parent_id'', parent_id)]"

definition example_cache :: "(json \<times> json) list \<Rightarrow> (json \<times> json) list \<Rightarrow> cache" where
  "example_cache pages databases = \<lparr>data = cache_data pages databases [] JNull, disk = NoFile\<rparr>"

text \<open>The object \<^verbatim>\<open>NotionCache(path)\<close> builds when nothing is at the path.\<close>

definition new_cache :: cache where
  "new_cache = \<lparr>data = empty_data, disk = NoFile\<rparr>"

text \<open>A clock that stands still, a network that is down, and a search with a fixed answer.\<close>

definition still_clock :: "int \<Rightarrow> nat \<Rightarrow> int" where
  "still_clock t i = t"

definition no_network :: "string \<Rightarrow> string \<Rightarrow> error + json list" where
  "no_network query filter_type = Inl HTTPError"

definition search_answers :: "json list \<Rightarrow> string \<Rightarrow> string \<Rightarrow> error + json list" where
  "search_answers results query filter_type = Inr results"

section \<open>Properties\<close>

subsection \<open>Characters\<close>

lemma lower_hex:
  "c \<in> set ''0123456789abcdefABCDEF'' \<Longrightarrow> lower_char c \<in> set ''0123456789abcdef''"
  by (auto simp: lower_char_def)

lemma list_all_lower:
  assumes "list_all (\<lambda>ch. ch \<in> A) xs" and "\<And>ch. ch \<in> A \<Longrightarrow> lower_char ch \<in> B"
  shows "list_all (\<lambda>ch. ch \<in> B) (lower xs)"
  using assms(1) unfolding lower_def by (induction xs) (simp_all add: assms(2))

subsection \<open>Python values\<close>

lemma bind_Inr [simp]: "bind (Inr v) f = f v"
  by (simp add: bind_def)

lemma bind_Inl [simp]: "bind (Inl e) f = Inl e"
  by (simp add: bind_def)

lemma py_eq_JStr [simp]: "py_eq v (JStr s) = (v = JStr s)"
  by (cases v) simp_all

lemma key_eq_JStr [simp]: "key_eq v (JStr s) = (v = JStr s)"
  by (cases v) simp_all

lemma key_eq_refl: "hashable k \<Longrightarrow> key_eq k k"
  by (cases k) simp_all

lemma is_plain_hashable: "is_plain p \<Longrightarrow> hashable p"
  by (cases p) simp_all

lemma dict_find_set_same: "key_eq k k \<Longrightarrow> dict_find (dict_set H k v) k = Some v"
  by (induction H) auto

lemma is_str_iff: "is_str v = (\<exists>s. v = JStr s)"
  by (cases v) simp_all

lemma is_arr_iff: "is_arr v = (\<exists>xs. v = JArr xs)"
  by (cases v) simp_all

lemma is_bool_iff: "is_bool v = (\<exists>b. v = JBool b)"
  by (cases v) simp_all

subsection \<open>Writing the file\<close>

text \<open>
  Whether a write is refused depends on the path and not on the text; a write that
  succeeds leaves a path that takes the next write as the path before took it.
\<close>

lemma writable_write: "writable f \<Longrightarrow> \<exists>f'. write_text f s = Inr f'"
  by (cases f) (simp_all add: writable_def write_text_def)

lemma not_writable_write: "\<not> writable f \<Longrightarrow> write_text f s = Inl OSError"
  by (cases f) (simp_all add: writable_def write_text_def)

lemma write_text_again: "write_text f s = Inr f' \<Longrightarrow> write_text f' s' = write_text f s'"
  by (cases f) (auto simp: write_text_def)

lemma data_save: "data (snd (save L c)) = data c"
  by (simp add: save_def split: sum.splits)

lemma save_writable:
  assumes "writable (disk c)"
  shows "\<exists>f'. save L c = (None, c\<lparr>disk := f'\<rparr>)"
  using writable_write [OF assms, of "json_dumps L (data c)"] by (auto simp: save_def)

lemma save_not_writable: "\<not> writable (disk c) \<Longrightarrow> save L c = (Some OSError, c)"
  by (simp add: save_def not_writable_write)

lemma write_text_taken:
  "write_text f s = Inr f' \<Longrightarrow> \<exists>f''. write_text f s' = Inr f''"
  by (cases f) (auto simp: write_text_def)

lemma save_again: "save L ((snd (save L c))\<lparr>data := d\<rparr>) = save L (c\<lparr>data := d\<rparr>)"
proof (cases "write_text (disk c) (json_dumps L (data c))")
  case (Inl e)
  then show ?thesis by (simp add: save_def)
next
  case (Inr f')
  from write_text_taken [OF Inr, of "json_dumps L d"] obtain f''
    where w: "write_text (disk c) (json_dumps L d) = Inr f''"
    by blast
  show ?thesis
    by (simp add: save_def Inr write_text_again [OF Inr] w)
qed

subsection \<open>Search results of the documented shape\<close>

text \<open>
  A well-formed result is read without an exception: its kind is \<^verbatim>\<open>page\<close> or \<^verbatim>\<open>database\<close>,
  its identifier and its title are strings, and its parent identifier is \<^verbatim>\<open>None\<close>, a
  Boolean or a string.
\<close>

lemma rich_text_first:
  assumes "wf_rich_text a" "truthy a"
  shows "\<exists>t. bind (py_getitem a (JInt 0)) (\<lambda>first. py_get first (JStr ''plain_text'') (JStr ''Untitled'')) = Inr (JStr t)"
  using assms
  by (auto simp: wf_rich_text_def wf_opt_def seq_pos_def is_str_iff split: json.splits list.splits option.splits)

lemma title_prop_title:
  assumes "wf_title_prop p"
  shows "\<exists>t. (if \<not> truthy p then Inr (JStr ''Untitled'')
        else bind (py_get p (JStr ''title'') JNull) (\<lambda>arr.
          if \<not> truthy arr then Inr (JStr ''Untitled'')
          else bind (py_getitem p (JStr ''title'')) (\<lambda>arr'.
               bind (py_getitem arr' (JInt 0)) (\<lambda>first.
               py_get first (JStr ''plain_text'') (JStr ''Untitled''))))) = Inr (JStr t)"
proof (cases "truthy p")
  case False
  then show ?thesis by simp
next
  case True
  from assms obtain f where p: "p = JObj f" and w: "wf_opt wf_rich_text (dict_find f (JStr ''title''))"
    by (auto simp: wf_title_prop_def split: json.splits)
  show ?thesis
  proof (cases "dict_find f (JStr ''title'')")
    case None
    with p True show ?thesis by simp
  next
    case (Some a)
    with w have wa: "wf_rich_text a" by (simp add: wf_opt_def)
    show ?thesis
    proof (cases "truthy a")
      case False
      with p Some True show ?thesis by simp
    next
      case ta: True
      from rich_text_first [OF wa ta] p Some True ta show ?thesis by simp
    qed
  qed
qed

lemma extract_title_page:
  assumes "wf_opt wf_page_props (dict_find f (JStr ''properties''))"
  shows "\<exists>t. extract_title (JStr ''page'') (JObj f) = Inr (JStr t)"
proof (cases "dict_find f (JStr ''properties'')")
  case None
  then show ?thesis by (simp add: extract_title_def)
next
  case (Some props)
  with assms obtain ps where ps: "props = JObj ps"
    and w1: "wf_opt wf_title_prop (dict_find ps (JStr ''title''))"
    and w2: "wf_opt wf_title_prop (dict_find ps (JStr ''Name''))"
    by (auto simp: wf_opt_def wf_page_props_def split: json.splits)
  have none: "extract_title (JStr ''page'') (JObj f) = Inr (JStr ''Untitled'')"
    if "\<And>t. dict_find ps (JStr ''title'') = Some t \<Longrightarrow> \<not> truthy t"
       "\<And>n. dict_find ps (JStr ''Name'') = Some n \<Longrightarrow> \<not> truthy n"
    using that Some ps by (simp add: extract_title_def split: option.splits)
  have use: "\<exists>t. extract_title (JStr ''page'') (JObj f) = Inr (JStr t)"
    if sel: "dict_find ps (JStr ''title'') = Some tp
             \<or> (\<forall>t. dict_find ps (JStr ''title'') = Some t \<longrightarrow> \<not> truthy t)
                \<and> dict_find ps (JStr ''Name'') = Some tp"
      and tr: "truthy tp" and w: "wf_title_prop tp" for tp
  proof -
    have "extract_title (JStr ''page'') (JObj f) =
       bind (py_get tp (JStr ''title'') JNull) (\<lambda>arr.
          if \<not> truthy arr then Inr (JStr ''Untitled'')
          else bind (py_getitem tp (JStr ''title'')) (\<lambda>arr'.
               bind (py_getitem arr' (JInt 0)) (\<lambda>first.
               py_get first (JStr ''plain_text'') (JStr ''Untitled''))))"
      using sel tr Some ps by (auto simp: extract_title_def split: option.splits)
    with title_prop_title [OF w] tr show ?thesis by simp
  qed
  show ?thesis
  proof (cases "\<exists>t. dict_find ps (JStr ''title'') = Some t \<and> truthy t")
    case True
    then obtain t where t: "dict_find ps (JStr ''title'') = Some t" "truthy t" by blast
    with w1 have "wf_title_prop t" by (simp add: wf_opt_def)
    with use [of t] t show ?thesis by blast
  next
    case nt: False
    show ?thesis
    proof (cases "\<exists>n. dict_find ps (JStr ''Name'') = Some n \<and> truthy n")
      case True
      then obtain n where n: "dict_find ps (JStr ''Name'') = Some n" "truthy n" by blast
      with w2 have "wf_title_prop n" by (simp add: wf_opt_def)
      with use [of n] n nt show ?thesis by blast
    next
      case False
      with nt none show ?thesis by blast
    qed
  qed
qed

lemma extract_title_database:
  assumes "wf_opt wf_rich_text (dict_find f (JStr ''title''))"
  shows "\<exists>t. extract_title (JStr ''database'') (JObj f) = Inr (JStr t)"
proof (cases "dict_find f (JStr ''title'')")
  case None
  then show ?thesis by (simp add: extract_title_def)
next
  case (Some a)
  with assms have wa: "wf_rich_text a" by (simp add: wf_opt_def)
  then obtain xs where xs: "a = JArr xs"
    by (auto simp: wf_rich_text_def split: json.splits)
  show ?thesis
  proof (cases "truthy a")
    case False
    with Some show ?thesis by (simp add: extract_title_def)
  next
    case True
    from rich_text_first [OF wa True] Some True xs show ?thesis
      by (simp add: extract_title_def)
  qed
qed

lemma parent_of_wf:
  assumes "wf_parent parent"
  shows "\<exists>p. parent_of parent = Inr p \<and> is_plain p"
proof -
  from assms obtain f where f: "parent = JObj f"
    and a: "wf_opt is_str (dict_find f (JStr ''page_id''))"
    and b: "wf_opt is_str (dict_find f (JStr ''database_id''))"
    and c: "wf_opt (\<lambda>w. is_bool w \<or> is_str w) (dict_find f (JStr ''workspace''))"
    by (auto simp: wf_parent_def split: json.splits)
  have pl: "is_str v \<or> is_bool v \<Longrightarrow> is_plain v" for v
    by (cases v) simp_all
  show ?thesis
    using a b c unfolding f parent_of_def
    by (auto simp: wf_opt_def pl split: option.splits)
qed

lemma parent_of_empty: "parent_of (JObj []) = Inr JNull"
  by (simp add: parent_of_def)

lemma read_result_wf:
  assumes "wf_result item"
  shows "\<exists>k i t p u a. read_result item = Inr (JStr k, JStr i, JStr t, p, u, a)
           \<and> (k = ''page'' \<or> k = ''database'') \<and> is_plain p"
proof -
  from assms obtain f where f: "item = JObj f"
    by (auto simp: wf_result_def split: json.splits)
  from assms f obtain i where i: "dict_find f (JStr ''id'') = Some (JStr i)"
    by (auto simp: wf_result_def wf_opt_def is_str_iff split: option.splits json.splits)
  from assms f have k: "dict_find f (JStr ''object'') = Some (JStr ''page'')
                \<and> wf_opt wf_page_props (dict_find f (JStr ''properties''))
              \<or> dict_find f (JStr ''object'') = Some (JStr ''database'')
                \<and> wf_opt wf_rich_text (dict_find f (JStr ''title''))"
    and par: "wf_opt wf_parent (dict_find f (JStr ''parent''))"
    by (simp_all add: wf_result_def)
  from k obtain kk t where kk: "dict_find f (JStr ''object'') = Some (JStr kk)"
     "kk = ''page'' \<or> kk = ''database''" "extract_title (JStr kk) (JObj f) = Inr (JStr t)"
    using extract_title_page extract_title_database by blast
  have "\<exists>p. bind (py_get (JObj f) (JStr ''parent'') (JObj [])) parent_of = Inr p \<and> is_plain p"
  proof (cases "dict_find f (JStr ''parent'')")
    case None
    then show ?thesis by (simp add: parent_of_empty)
  next
    case (Some parent)
    with par have "wf_parent parent" by (simp add: wf_opt_def)
    from parent_of_wf [OF this] Some show ?thesis by simp
  qed
  then obtain p where p: "bind (py_get (JObj f) (JStr ''parent'') (JObj [])) parent_of = Inr p" "is_plain p"
    by blast
  then have p': "(case dict_find f (JStr ''parent'') of None \<Rightarrow> parent_of (JObj []) | Some v \<Rightarrow> parent_of v) = Inr p"
    by (simp split: option.splits)
  show ?thesis
    unfolding f read_result_def using i kk p' p(2)
    by (simp split: option.splits)
qed

subsection \<open>One iteration and the loop on a cache of the documented shape\<close>

text \<open>
  On a cache of the documented shape whose hierarchy maps to lists, an iteration for a
  well-formed result raises nothing: it assigns the entry in the mapping of its kind and
  runs the hierarchy block.
\<close>

lemma wf_hierarchy_find:
  "wf_hierarchy H \<Longrightarrow> dict_find H p = Some v \<Longrightarrow> \<exists>xs. v = JArr xs"
  by (induction H) (auto simp: wf_hierarchy_def is_arr_iff split: if_splits)

lemma wf_hierarchy_set:
  "wf_hierarchy H \<Longrightarrow> wf_hierarchy (dict_set H p (JArr xs))"
  by (induction H) (auto simp: wf_hierarchy_def)

lemma wf_hierarchy_add_child:
  "wf_hierarchy H \<Longrightarrow> wf_hierarchy (add_child H p i)"
  by (auto simp: add_child_def Let_def wf_hierarchy_set split: option.splits json.splits)

lemma wf_hierarchy_link:
  "wf_hierarchy H \<Longrightarrow> wf_hierarchy (link H p i)"
  by (simp add: link_def wf_hierarchy_add_child)

lemma getitem_cache_data [simp]:
  "py_getitem (cache_data P D H r) (JStr ''pages'') = Inr (JObj P)"
  "py_getitem (cache_data P D H r) (JStr ''databases'') = Inr (JObj D)"
  "py_getitem (cache_data P D H r) (JStr ''hierarchy'') = Inr (JObj H)"
  "py_getitem (cache_data P D H r) (JStr ''last_refresh'') = Inr r"
  by (simp_all add: cache_data_def)

lemma setitem_cache_data [simp]:
  "py_setitem (cache_data P D H r) (JStr ''pages'') (JObj P') = Inr (cache_data P' D H r)"
  "py_setitem (cache_data P D H r) (JStr ''databases'') (JObj D') = Inr (cache_data P D' H r)"
  "py_setitem (cache_data P D H r) (JStr ''hierarchy'') (JObj H') = Inr (cache_data P D H' r)"
  "py_setitem (cache_data P D H r) (JStr ''last_refresh'') r' = Inr (cache_data P D H r')"
  by (simp_all add: cache_data_def)

lemma get_cache_data [simp]:
  "py_get (cache_data P D H r) (JStr ''pages'') d = Inr (JObj P)"
  "py_get (cache_data P D H r) (JStr ''databases'') d = Inr (JObj D)"
  "py_get (cache_data P D H r) (JStr ''hierarchy'') d = Inr (JObj H)"
  "py_get (cache_data P D H r) (JStr ''last_refresh'') d = Inr r"
  by (simp_all add: cache_data_def)

lemma store_entry_cache_data:
  assumes "k = ''page'' \<or> k = ''database''"
  shows "store_entry (JStr k) (JStr i) e (cache_data P D H r) =
     Inr (cache_data (if k = ''page'' then dict_set P (JStr i) e else P)
                     (if k = ''database'' then dict_set D (JStr i) e else D) H r)"
  using assms by (auto simp: store_entry_def modify_at_def)

lemma update_hierarchy_cache_data:
  assumes "is_plain p" "wf_hierarchy H"
  shows "update_hierarchy p i (cache_data P D H r) = (None, cache_data P D (link H p i) r)"
proof (cases "is_real_parent p")
  case False
  then show ?thesis
    by (auto simp: update_hierarchy_def link_def is_real_parent_def)
next
  case True
  have hp: "hashable p" using assms(1) by (rule is_plain_hashable)
  then have kp: "key_eq p p" by (rule key_eq_refl)
  from True have tp: "truthy p" "p \<noteq> JStr ''workspace''"
    by (simp_all add: is_real_parent_def)
  show ?thesis
  proof (cases "dict_find H p")
    case None
    then show ?thesis
      using tp hp
      by (simp add: update_hierarchy_def link_def is_real_parent_def add_child_def
          modify_at_def attempt_def then_do_def dict_find_set_same [OF kp])
  next
    case (Some v)
    with wf_hierarchy_find [OF assms(2)] obtain xs where "v = JArr xs" by blast
    with Some show ?thesis
      using tp hp
      by (simp add: update_hierarchy_def link_def is_real_parent_def add_child_def
          modify_at_def attempt_def then_do_def)
  qed
qed

lemma update_item_cache_data:
  assumes "wf_result item" "wf_hierarchy H"
  shows "update_item L now item (cache_data P D H r) =
     (None, cache_data
        (if result_kind item = JStr ''page''
         then dict_set P (result_id item) (result_entry L now item) else P)
        (if result_kind item = JStr ''database''
         then dict_set D (result_id item) (result_entry L now item) else D)
        (link H (result_parent item) (result_id item)) r)"
proof -
  from read_result_wf [OF assms(1)] obtain k i t p u a where
    rr: "read_result item = Inr (JStr k, JStr i, JStr t, p, u, a)"
    and k: "k = ''page'' \<or> k = ''database''" and p: "is_plain p"
    by blast
  show ?thesis
    using k
    by (auto simp: update_item_def rr result_kind_def result_id_def result_entry_def
        result_parent_def store_entry_cache_data attempt_def then_do_def
        update_hierarchy_cache_data [OF p assms(2)])
qed

lemma wf_hierarchy_apply_links:
  "wf_hierarchy H \<Longrightarrow> wf_hierarchy (apply_links K H)"
  unfolding apply_links_def
  by (induction K arbitrary: H) (simp_all add: wf_hierarchy_link)

lemma update_loop_cache_data:
  assumes "list_all wf_result R" "wf_hierarchy H"
  shows "update_loop L clock i R (cache_data P D H r) =
     (None, cache_data (apply_writes (writes ''page'' L clock i R) P)
                       (apply_writes (writes ''database'' L clock i R) D)
                       (apply_links (links R) H) r)"
  using assms
proof (induction R arbitrary: i P D H)
  case Nil
  then show ?case by (simp add: apply_writes_def apply_links_def)
next
  case (Cons item R)
  from Cons.prems have wi: "wf_result item" and wR: "list_all wf_result R" by simp_all
  have wl: "wf_hierarchy (link H (result_parent item) (result_id item))"
    using Cons.prems(2) by (rule wf_hierarchy_link)
  show ?case
    by (simp add: update_item_cache_data [OF wi Cons.prems(2)] then_do_def
        Cons.IH [OF wR wl] apply_writes_def apply_links_def)
qed

subsection \<open>Assignments to a mapping\<close>

text \<open>
  Two lists of assignments to the same keys in the same order: after the first, the
  second leaves what it leaves when made alone.
\<close>

lemma apply_writes_Nil [simp]: "apply_writes [] P = P"
  by (simp add: apply_writes_def)

lemma apply_writes_Cons [simp]:
  "apply_writes (kv # S) P = apply_writes S (dict_set P (fst kv) (snd kv))"
  by (simp add: apply_writes_def)

lemma last_value_Nil [simp]: "last_value [] a b = b"
  by (simp add: last_value_def)

lemma last_value_Cons [simp]:
  "last_value (kv # S) a b = last_value S a (if fst kv = a then snd kv else b)"
  by (simp add: last_value_def)

lemma apply_writes_head:
  "list_all (\<lambda>kv. is_str (fst kv)) S \<Longrightarrow>
   apply_writes S ((a, b) # P) =
     (a, last_value S a b) # apply_writes (filter (\<lambda>kv. fst kv \<noteq> a) S) P"
proof (induction S arbitrary: b P)
  case Nil
  then show ?case by simp
next
  case (Cons kv S)
  from Cons.prems obtain s where s: "fst kv = JStr s" and S: "list_all (\<lambda>kv. is_str (fst kv)) S"
    by (auto simp: is_str_iff)
  show ?case
    using Cons.IH [OF S] s by auto
qed

lemma last_value_same_keys:
  "map fst S = map fst S' \<Longrightarrow> a \<notin> fst ` set S' \<Longrightarrow> last_value S a b = b"
proof (induction S arbitrary: S' b)
  case Nil
  then show ?case by simp
next
  case (Cons kv S)
  then obtain kv' T' where S': "S' = kv' # T'" by (cases S') auto
  with Cons.prems have "fst kv = fst kv'" "map fst S = map fst T'" "a \<noteq> fst kv'" "a \<notin> fst ` set T'"
    by auto
  with Cons.IH [of T'] show ?case by simp
qed

lemma last_value_overwrites:
  "a \<in> fst ` set S \<Longrightarrow> last_value S a b = last_value S a b'"
proof (induction S arbitrary: b b')
  case Nil
  then show ?case by simp
next
  case (Cons kv S)
  show ?case
  proof (cases "a \<in> fst ` set S")
    case True
    from Cons.IH [OF this] show ?thesis by simp
  next
    case False
    with Cons.prems have "fst kv = a" by auto
    then show ?thesis by simp
  qed
qed

lemma map_fst_filter_keys:
  "map fst S = map fst S' \<Longrightarrow>
   map fst (filter (\<lambda>kv. fst kv \<noteq> a) S) = map fst (filter (\<lambda>kv. fst kv \<noteq> a) S')"
proof (induction S arbitrary: S')
  case Nil
  then show ?case by simp
next
  case (Cons kv S)
  then obtain kv' T' where "S' = kv' # T'" by (cases S') auto
  with Cons show ?case by auto
qed

lemma apply_writes_absorb:
  assumes "map fst S = map fst S'" "list_all (\<lambda>kv. is_str (fst kv)) S"
  shows "apply_writes S' (apply_writes S P) = apply_writes S' P"
  using assms
proof (induction "length S + length P" arbitrary: S S' P rule: less_induct)
  case less
  have keys': "list_all (\<lambda>kv. is_str (fst kv)) S'"
  proof -
    have "list_all is_str (map fst S)" using less.prems(2) by (simp add: list_all_iff)
    then have "list_all is_str (map fst S')" using less.prems(1) by simp
    then show ?thesis by (simp add: list_all_iff)
  qed
  show ?case
  proof (cases P)
    case (Cons ab P')
    obtain a b where ab: "ab = (a, b)" by (cases ab)
    let ?F = "filter (\<lambda>kv. fst kv \<noteq> a) S" and ?F' = "filter (\<lambda>kv. fst kv \<noteq> a) S'"
    have mk: "map fst ?F = map fst ?F'"
      using less.prems(1) by (rule map_fst_filter_keys)
    have ks: "list_all (\<lambda>kv. is_str (fst kv)) ?F"
      using less.prems(2) by (simp add: list_all_iff)
    have "length ?F + length P' < length S + length P"
      using Cons by (simp add: le_imp_less_Suc)
    from less.hyps [OF this mk ks]
    have tail: "apply_writes ?F' (apply_writes ?F P') = apply_writes ?F' P'" .
    have head: "last_value S' a (last_value S a b) = last_value S' a b"
    proof (cases "a \<in> fst ` set S'")
      case True
      then show ?thesis by (rule last_value_overwrites)
    next
      case False
      with less.prems(1) show ?thesis by (simp add: last_value_same_keys)
    qed
    show ?thesis
      unfolding Cons ab
      by (simp add: apply_writes_head [OF less.prems(2)] apply_writes_head [OF keys'] tail head)
  next
    case Nil
    show ?thesis
    proof (cases S)
      case Nil
      with less.prems(1) have "S' = []" by simp
      with Nil \<open>P = []\<close> show ?thesis by simp
    next
      case (Cons kv T)
      with less.prems(1) obtain kv' T' where S': "S' = kv' # T'" and k: "fst kv' = fst kv"
        and mk: "map fst T = map fst T'"
        by (cases S') auto
      let ?a = "fst kv"
      let ?F = "filter (\<lambda>x. fst x \<noteq> ?a) T" and ?F' = "filter (\<lambda>x. fst x \<noteq> ?a) T'"
      from less.prems(2) Cons have kT: "list_all (\<lambda>kv. is_str (fst kv)) T" by simp
      from keys' S' have kT': "list_all (\<lambda>kv. is_str (fst kv)) T'" by simp
      from less.prems(2) Cons obtain s where s: "?a = JStr s" by (auto simp: is_str_iff)
      have mf: "map fst ?F = map fst ?F'"
        using mk by (rule map_fst_filter_keys)
      have kf: "list_all (\<lambda>kv. is_str (fst kv)) ?F"
        using kT by (simp add: list_all_iff)
      have "length ?F < Suc (length T + length P)"
        by (rule le_imp_less_Suc) (rule trans_le_add1, rule length_filter_le)
      then have "length ?F + length ([] :: (json \<times> json) list) < length S + length P"
        unfolding Cons by simp
      from less.hyps [OF this mf kf]
      have tail: "apply_writes ?F' (apply_writes ?F []) = apply_writes ?F' []" .
      have l: "apply_writes S [] = (?a, last_value T ?a (snd kv)) # apply_writes ?F []"
        unfolding Cons using apply_writes_head [OF kT, of ?a "snd kv" "[]"] by simp
      have r: "apply_writes S' [] = (?a, last_value T' ?a (snd kv')) # apply_writes ?F' []"
        unfolding S' using apply_writes_head [OF kT', of ?a "snd kv'" "[]"] k by simp
      have "apply_writes S' (apply_writes S []) =
              (?a, last_value T' ?a (snd kv')) # apply_writes ?F' (apply_writes ?F [])"
        unfolding l S' using apply_writes_head [OF kT', of ?a _ "apply_writes ?F []"] k s
        by simp
      with tail r Nil show ?thesis by simp
    qed
  qed
qed

lemma map_fst_dict_set:
  "map fst (dict_set P (JStr s) v) =
     (if JStr s \<in> fst ` set P then map fst P else map fst P @ [JStr s])"
proof (induction P)
  case Nil
  then show ?case by simp
next
  case (Cons kv P)
  then show ?case by (cases kv) (simp add: image_iff)
qed

lemma set_dict_set_keys:
  assumes "is_str k"
  shows "fst ` set (dict_set P k v) = insert k (fst ` set P)"
proof -
  from assms obtain s where k: "k = JStr s" by (auto simp: is_str_iff)
  have "fst ` set (dict_set P k v) = set (map fst (dict_set P k v))" by simp
  also have "\<dots> = insert k (fst ` set P)"
    unfolding k map_fst_dict_set by (simp add: insert_absorb)
  finally show ?thesis .
qed

lemma set_apply_writes_keys:
  "list_all (\<lambda>kv. is_str (fst kv)) S \<Longrightarrow>
   fst ` set (apply_writes S P) = fst ` set P \<union> fst ` set S"
proof (induction S arbitrary: P)
  case Nil
  then show ?case by simp
next
  case (Cons kv S)
  then have k: "is_str (fst kv)" and S: "list_all (\<lambda>kv. is_str (fst kv)) S" by simp_all
  show ?case
    using Cons.IH [OF S, of "dict_set P (fst kv) (snd kv)"]
    by (simp add: set_dict_set_keys [OF k])
qed

subsection \<open>The hierarchy block, repeated\<close>

text \<open>
  Once a child is in the list of its parent, the hierarchy block for that pair changes
  nothing, and no other pair removes it.
\<close>

lemma plain_key_eq: "is_plain p \<Longrightarrow> is_plain q \<Longrightarrow> key_eq q p = (q = p)"
  by (cases p; cases q) auto

lemma plain_key_unique:
  "is_plain p \<Longrightarrow> is_plain q \<Longrightarrow> key_eq k q \<Longrightarrow> key_eq k p \<Longrightarrow> q = p"
  by (cases p; cases q; cases k) (auto split: if_splits)

lemma dict_find_set_other:
  assumes "is_plain p" "is_plain q" "q \<noteq> p"
  shows "dict_find (dict_set H q v) p = dict_find H p"
proof (induction H)
  case Nil
  then show ?case using assms by (simp add: plain_key_eq)
next
  case (Cons kv H)
  obtain k w where kv: "kv = (k, w)" by (cases kv)
  show ?case
  proof (cases "key_eq k q")
    case True
    with assms have "\<not> key_eq k p" using plain_key_unique by blast
    with True kv show ?thesis by simp
  next
    case False
    with kv Cons.IH show ?thesis by simp
  qed
qed

lemma add_child_present_same:
  "present p i H \<Longrightarrow> add_child H p i = H"
  by (auto simp: present_def add_child_def)

lemma present_add_child:
  assumes "wf_hierarchy H" "is_plain p" "is_str i"
  shows "present p i (add_child H p i)"
proof -
  have kp: "key_eq p p" using assms(2) by (simp add: is_plain_hashable key_eq_refl)
  from assms(3) obtain s where i: "i = JStr s" by (auto simp: is_str_iff)
  show ?thesis
  proof (cases "dict_find H p")
    case None
    then show ?thesis
      by (simp add: add_child_def present_def dict_find_set_same [OF kp] i)
  next
    case (Some v)
    with wf_hierarchy_find [OF assms(1)] obtain xs where "v = JArr xs" by blast
    with Some show ?thesis
      by (simp add: add_child_def present_def dict_find_set_same [OF kp] i)
  qed
qed

lemma present_add_child_other:
  assumes "present p i H" "is_plain p" "is_plain q"
  shows "present p i (add_child H q j)"
proof (cases "q = p")
  case True
  from assms(1) obtain xs where xs: "dict_find H p = Some (JArr xs)" "list_ex (\<lambda>x. py_eq x i) xs"
    by (auto simp: present_def)
  have kp: "key_eq p p" using assms(2) by (simp add: is_plain_hashable key_eq_refl)
  show ?thesis
    using xs True by (auto simp: add_child_def present_def dict_find_set_same [OF kp])
next
  case False
  note other = dict_find_set_other [OF assms(2,3) False]
  from assms(1) show ?thesis
    by (auto simp: add_child_def present_def Let_def other split: option.splits json.splits)
qed

lemma present_link_other:
  "present p i H \<Longrightarrow> is_plain p \<Longrightarrow> is_plain q \<Longrightarrow> present p i (link H q j)"
  by (simp add: link_def present_add_child_other)

lemma present_apply_links:
  "present p i H \<Longrightarrow> is_plain p \<Longrightarrow> wf_links K \<Longrightarrow> present p i (apply_links K H)"
  unfolding apply_links_def
  by (induction K arbitrary: H) (simp_all add: wf_links_def present_link_other)

lemma all_present_apply_links:
  assumes "wf_hierarchy H" "wf_links K"
  shows "list_all (\<lambda>kv. is_real_parent (fst kv) \<longrightarrow> present (fst kv) (snd kv) (apply_links K H)) K"
  using assms
proof (induction K arbitrary: H)
  case Nil
  then show ?case by simp
next
  case (Cons kv K)
  from Cons.prems have p: "is_plain (fst kv)" and i: "is_str (snd kv)" and K: "wf_links K"
    by (simp_all add: wf_links_def)
  let ?H = "link H (fst kv) (snd kv)"
  have w: "wf_hierarchy ?H" using Cons.prems(1) by (rule wf_hierarchy_link)
  have al: "apply_links (kv # K) H = apply_links K ?H"
    by (simp add: apply_links_def)
  have hd: "is_real_parent (fst kv) \<longrightarrow> present (fst kv) (snd kv) (apply_links K ?H)"
  proof
    assume "is_real_parent (fst kv)"
    then have "present (fst kv) (snd kv) ?H"
      using present_add_child [OF Cons.prems(1) p i] by (simp add: link_def)
    then show "present (fst kv) (snd kv) (apply_links K ?H)"
      using p K by (rule present_apply_links)
  qed
  from Cons.IH [OF w K] hd show ?case
    unfolding al by simp
qed

lemma apply_links_noop:
  "list_all (\<lambda>kv. is_real_parent (fst kv) \<longrightarrow> present (fst kv) (snd kv) H) K \<Longrightarrow>
   apply_links K H = H"
  unfolding apply_links_def
  by (induction K) (auto simp: link_def add_child_present_same)

lemma apply_links_idem:
  assumes "wf_hierarchy H" "wf_links K"
  shows "apply_links K (apply_links K H) = apply_links K H"
  using all_present_apply_links [OF assms] by (rule apply_links_noop)

subsection \<open>What a list of well-formed results writes\<close>

lemma result_fields_wf:
  assumes "wf_result item"
  shows "is_str (result_id item)" "is_plain (result_parent item)"
    "result_kind item = JStr ''page'' \<or> result_kind item = JStr ''database''"
    "wf_entry (result_entry L now item)"
    "entry_parent (result_entry L now item) = result_parent item"
  using read_result_wf [OF assms]
  by (auto simp: result_id_def result_parent_def result_kind_def result_entry_def
        cache_entry_def wf_entry_def entry_parent_def)

lemma writes_keys:
  "map fst (writes k L clock i R) = map result_id (filter (\<lambda>item. result_kind item = JStr k) R)"
  by (induction R arbitrary: i) simp_all

lemma writes_str_keys:
  "list_all wf_result R \<Longrightarrow> list_all (\<lambda>kv. is_str (fst kv)) (writes k L clock i R)"
  by (induction R arbitrary: i) (simp_all add: result_fields_wf)

lemma writes_wf_entries:
  "list_all wf_result R \<Longrightarrow> list_all (\<lambda>kv. wf_entry (snd kv)) (writes k L clock i R)"
  by (induction R arbitrary: i) (simp_all add: result_fields_wf)

lemma links_wf: "list_all wf_result R \<Longrightarrow> wf_links (links R)"
  by (induction R) (simp_all add: wf_links_def result_fields_wf)

lemma wf_collection_dict_set:
  "wf_collection P \<Longrightarrow> wf_entry e \<Longrightarrow> wf_collection (dict_set P k e)"
  by (induction P) (auto simp: wf_collection_def)

lemma wf_collection_apply_writes:
  "wf_collection P \<Longrightarrow> list_all (\<lambda>kv. wf_entry (snd kv)) S \<Longrightarrow> wf_collection (apply_writes S P)"
  by (induction S arbitrary: P) (simp_all add: wf_collection_dict_set)

lemma update_from_search_cache_data:
  assumes "data c = cache_data P D H r" "wf_hierarchy H" "list_all wf_result R"
  shows "update_from_search L clock R c =
     save L (c\<lparr>data := cache_data (apply_writes (writes ''page'' L clock 0 R) P)
                       (apply_writes (writes ''database'' L clock 0 R) D)
                       (apply_links (links R) H)
                       (JStr (isoformat L (clock (length R))))\<rparr>)"
  by (simp add: update_from_search_def update_loop_cache_data [OF assms(3,2)] assms(1))

lemma update_from_search_data:
  assumes "data c = cache_data P D H r" "wf_hierarchy H" "list_all wf_result R"
  shows "data (snd (update_from_search L clock R c)) =
     cache_data (apply_writes (writes ''page'' L clock 0 R) P)
                (apply_writes (writes ''database'' L clock 0 R) D)
                (apply_links (links R) H)
                (JStr (isoformat L (clock (length R))))"
  by (simp add: update_from_search_cache_data [OF assms] data_save)

subsection \<open>Lookups in a collection of well-formed entries\<close>

lemma wf_entry_cases:
  assumes "wf_entry e"
  obtains f t where "e = JObj f" "dict_find f (JStr ''title'') = Some (JStr t)"
  using assms unfolding wf_entry_def
  by (auto split: json.splits option.splits)

lemma title_matches_wf:
  "wf_collection kvs \<Longrightarrow>
   title_matches kvs title parent_id =
     Inr (map fst (filter (\<lambda>kv. title_is title kv \<and>
            (parent_id = JNull \<or> py_eq (entry_parent (snd kv)) parent_id)) kvs))"
proof (induction kvs)
  case Nil
  then show ?case by simp
next
  case (Cons kv kvs)
  obtain k e where kv: "kv = (k, e)" by (cases kv)
  from Cons.prems kv have "wf_entry e" and wf: "wf_collection kvs"
    by (simp_all add: wf_collection_def)
  then obtain f t where e: "e = JObj f" "dict_find f (JStr ''title'') = Some (JStr t)"
    by (auto elim: wf_entry_cases)
  show ?case
    using Cons.IH [OF wf] e kv
    by (simp add: title_is_def entry_title_def entry_parent_def split: option.splits)
qed

lemma find_by_title_wf:
  assumes "collection_of c obj_type = Inr (JObj kvs)" "wf_collection kvs"
  shows "find_by_title c title obj_type parent_id =
     Inr (case filter (\<lambda>kv. title_is title kv \<and>
            (parent_id = JNull \<or> py_eq (entry_parent (snd kv)) parent_id)) kvs of
           [] \<Rightarrow> JNull | kv # rest \<Rightarrow> fst kv)"
  using assms
  by (simp add: find_by_title_def collection_of_def title_matches_wf split: list.splits)

lemma find_by_title_cong:
  assumes "collection_of c' obj_type = collection_of c obj_type"
  shows "find_by_title c' title obj_type parent_id = find_by_title c title obj_type parent_id"
  using assms by (simp add: find_by_title_def collection_of_def)

lemma traverse_cong:
  assumes "collection_of c' obj_type = collection_of c obj_type"
  shows "traverse c' obj_type i cur parts = traverse c obj_type i cur parts"
  by (induction parts arbitrary: i cur)
     (simp_all add: find_by_title_cong [OF assms] cong: if_cong)

lemma find_by_title_no_match:
  assumes "collection_of c obj_type = Inr (JObj kvs)" "wf_collection kvs"
    and "\<not> list_ex (title_is part) kvs"
  shows "find_by_title c part obj_type parent_id = Inr JNull"
proof -
  have "filter (\<lambda>kv. title_is part kv \<and>
            (parent_id = JNull \<or> py_eq (entry_parent (snd kv)) parent_id)) kvs = []"
    using assms(3) by (auto simp: list_ex_iff filter_empty_conv)
  then show ?thesis
    using find_by_title_wf [OF assms(1,2), of part parent_id] by simp
qed

lemma find_by_title_total:
  assumes "collection_of c obj_type = Inr (JObj kvs)" "wf_collection kvs"
  shows "\<exists>v. find_by_title c part obj_type parent_id = Inr v"
  using find_by_title_wf [OF assms] by simp

lemma traverse_no_match:
  assumes "collection_of c obj_type = Inr (JObj kvs)" "wf_collection kvs"
    and "\<not> list_ex (title_is part) kvs"
  shows "part \<in> set parts \<Longrightarrow> traverse c obj_type i cur parts = Inr JNull"
proof (induction parts arbitrary: i cur)
  case Nil
  then show ?case by simp
next
  case (Cons p ps)
  obtain v0 where v0: "find_by_title c p obj_type JNull = Inr v0"
    using find_by_title_total [OF assms(1,2)] by blast
  obtain v1 where v1: "find_by_title c p obj_type cur = Inr v1"
    using find_by_title_total [OF assms(1,2)] by blast
  show ?case
  proof (cases "p = part")
    case True
    then show ?thesis
      using find_by_title_no_match [OF assms] by simp
  next
    case False
    with Cons.prems have "part \<in> set ps" by simp
    then show ?thesis
      using Cons.IH v0 v1 by simp
  qed
qed

lemma traverse_total:
  assumes "collection_of c obj_type = Inr (JObj kvs)" "wf_collection kvs"
  shows "\<exists>v. traverse c obj_type i cur parts = Inr v"
proof (induction parts arbitrary: i cur)
  case Nil
  then show ?case by simp
next
  case (Cons p ps)
  obtain v0 where v0: "find_by_title c p obj_type JNull = Inr v0"
    using find_by_title_total [OF assms] by blast
  obtain v1 where v1: "find_by_title c p obj_type cur = Inr v1"
    using find_by_title_total [OF assms] by blast
  show ?case
    using Cons.IH v0 v1 by simp
qed

subsection \<open>Sequences of calls\<close>

lemma mapping_keys_cache_data:
  "data c = cache_data P D H r \<Longrightarrow> mapping_keys c ''pages'' = map fst P"
  "data c = cache_data P D H r \<Longrightarrow> mapping_keys c ''databases'' = map fst D"
  by (simp_all add: mapping_keys_def)

lemma writes_key_set:
  "fst ` set (writes k L clock i R) =
     set (map result_id (filter (\<lambda>item. result_kind item = JStr k) R))"
proof -
  have "fst ` set (writes k L clock i R) = set (map fst (writes k L clock i R))"
    by simp
  also have "\<dots> = set (map result_id (filter (\<lambda>item. result_kind item = JStr k) R))"
    by (simp only: writes_keys)
  finally show ?thesis .
qed

lemma run_shape:
  assumes "data c = cache_data P D H r" "wf_hierarchy H" "list_all results_ok ms"
  shows "\<exists>P' D' H' r'. data (run L ms c) = cache_data P' D' H' r' \<and> wf_hierarchy H'
           \<and> fst ` set P' = fst ` set P \<union> set (reported ''page'' ms)
           \<and> fst ` set D' = fst ` set D \<union> set (reported ''database'' ms)"
  using assms
proof (induction ms arbitrary: c P D H r)
  case Nil
  then show ?case by auto
next
  case (Cons m ms)
  from Cons.prems(3) have ok: "results_ok m" and oks: "list_all results_ok ms" by simp_all
  show ?case
  proof (cases "is_read m")
    case True
    then have same: "snd (call L m c) = c" by (cases m) simp_all
    have rep: "reported k (m # ms) = reported k ms" for k
      using True by (cases m) simp_all
    from Cons.IH [OF Cons.prems(1,2) oks] show ?thesis
      by (simp add: same rep)
  next
    case False
    then obtain clock R where m: "m = Update_from_search clock R" by (cases m) simp_all
    with ok have wR: "list_all wf_result R" by simp
    let ?P1 = "apply_writes (writes ''page'' L clock 0 R) P"
    let ?D1 = "apply_writes (writes ''database'' L clock 0 R) D"
    let ?H1 = "apply_links (links R) H"
    let ?r1 = "JStr (isoformat L (clock (length R)))"
    have d1: "data (snd (call L m c)) = cache_data ?P1 ?D1 ?H1 ?r1"
      unfolding m
      by (simp add: update_from_search_data [OF Cons.prems(1,2) wR, symmetric]
          split: prod.splits option.splits)
    have w1: "wf_hierarchy ?H1" using Cons.prems(2) by (rule wf_hierarchy_apply_links)
    have kp: "fst ` set ?P1 = fst ` set P \<union>
        set (map result_id (filter (\<lambda>item. result_kind item = JStr ''page'') R))"
      using set_apply_writes_keys [OF writes_str_keys [OF wR], of "''page''" L clock 0 P]
      by (simp only: writes_key_set)
    have kd: "fst ` set ?D1 = fst ` set D \<union>
        set (map result_id (filter (\<lambda>item. result_kind item = JStr ''database'') R))"
      using set_apply_writes_keys [OF writes_str_keys [OF wR], of "''database''" L clock 0 D]
      by (simp only: writes_key_set)
    from Cons.IH [OF d1 w1 oks] obtain P' D' H' r' where
      ih1: "data (run L ms (snd (call L m c))) = cache_data P' D' H' r'"
      and ih2: "wf_hierarchy H'"
      and ih3: "fst ` set P' = fst ` set ?P1 \<union> set (reported ''page'' ms)"
      and ih4: "fst ` set D' = fst ` set ?D1 \<union> set (reported ''database'' ms)"
      by (elim exE conjE)
    have a: "data (run L (m # ms) c) = cache_data P' D' H' r'"
      using ih1 by simp
    have b: "fst ` set P' = fst ` set P \<union> set (reported ''page'' (m # ms))"
      using ih3 unfolding kp m by (simp add: Un_assoc)
    have c: "fst ` set D' = fst ` set D \<union> set (reported ''database'' (m # ms))"
      using ih4 unfolding kd m by (simp add: Un_assoc)
    show ?thesis
      by (intro exI conjI) (fact a, fact ih2, fact b, fact c)
  qed
qed

lemma reported_take: "set (reported k (take n ms)) \<subseteq> set (reported k ms)"
proof (induction ms arbitrary: n)
  case Nil
  then show ?case by simp
next
  case (Cons m ms)
  show ?case
  proof (cases n)
    case 0
    then show ?thesis by simp
  next
    case (Suc n')
    with Cons.IH [of n'] show ?thesis
      by (cases m) auto
  qed
qed

lemma list_all_take: "list_all Q xs \<Longrightarrow> list_all Q (take n xs)"
  by (auto simp: list_all_iff dest: in_set_takeD)

subsection \<open>Reads on a cache of the documented shape\<close>

lemma wf_collection_find:
  "wf_collection P \<Longrightarrow> dict_find P k = Some e \<Longrightarrow> wf_entry e"
  by (induction P) (auto simp: wf_collection_def split: if_splits)

lemma get_title_total:
  assumes "data c = cache_data P D H r" "wf_collection P" "wf_collection D"
  shows "\<exists>v. get_title c (JStr i) = Inr v"
proof -
  have entry: "\<exists>v. py_getitem e (JStr ''title'') = Inr v" if "wf_entry e" for e
    using that by (auto elim!: wf_entry_cases)
  have look: "dict_find X (JStr i) = None \<or> (\<exists>e. dict_find X (JStr i) = Some e \<and> wf_entry e)"
    if "wf_collection X" for X
    using wf_collection_find [OF that] by (cases "dict_find X (JStr i)") auto
  from look [OF assms(2)] look [OF assms(3)] show ?thesis
    using entry by (auto simp: get_title_def assms(1))
qed

lemma find_by_path_total:
  assumes "data c = cache_data P D H r" "wf_collection P" "wf_collection D"
  shows "\<exists>v. find_by_path c path obj_type = Inr v"
proof -
  obtain kvs where k: "collection_of c obj_type = Inr (JObj kvs)" "wf_collection kvs"
    using assms by (cases "obj_type = ''page''") (auto simp: collection_of_def)
  show ?thesis
    using find_by_title_total [OF k] traverse_total [OF k]
    by (simp add: find_by_path_def Let_def)
qed

lemma is_stale_total:
  assumes "data c = cache_data P D H r" "wf_refresh L r"
  shows "\<exists>b. is_stale L now c = Inr b"
  using assms
  by (auto simp: is_stale_def wf_refresh_def split: json.splits option.splits pydatetime.splits)

subsection \<open>Applying the same results again\<close>

text \<open>
  After one application of a list of well-formed results, a second application of the
  same list leaves what it leaves when made alone: its assignments overwrite those of the
  first, and the hierarchy block finds every child in place.
\<close>

lemma update_from_search_again:
  assumes "data c = cache_data P D H r" "wf_hierarchy H" "list_all wf_result R"
  shows "update_from_search L clock2 R (snd (update_from_search L clock1 R c))
           = update_from_search L clock2 R c"
proof -
  let ?P1 = "apply_writes (writes ''page'' L clock1 0 R) P"
  let ?D1 = "apply_writes (writes ''database'' L clock1 0 R) D"
  let ?H1 = "apply_links (links R) H"
  let ?r1 = "JStr (isoformat L (clock1 (length R)))"
  let ?d2 = "cache_data (apply_writes (writes ''page'' L clock2 0 R) P)
               (apply_writes (writes ''database'' L clock2 0 R) D) ?H1
               (JStr (isoformat L (clock2 (length R))))"
  let ?c1 = "snd (update_from_search L clock1 R c)"
  have first: "update_from_search L clock1 R c = save L (c\<lparr>data := cache_data ?P1 ?D1 ?H1 ?r1\<rparr>)"
    using assms by (rule update_from_search_cache_data)
  have d1: "data ?c1 = cache_data ?P1 ?D1 ?H1 ?r1"
    using assms by (rule update_from_search_data)
  have w1: "wf_hierarchy ?H1" using assms(2) by (rule wf_hierarchy_apply_links)
  have pages: "apply_writes (writes ''page'' L clock2 0 R) ?P1
                 = apply_writes (writes ''page'' L clock2 0 R) P"
    by (rule apply_writes_absorb) (simp_all add: writes_keys writes_str_keys [OF assms(3)])
  have dbs: "apply_writes (writes ''database'' L clock2 0 R) ?D1
                 = apply_writes (writes ''database'' L clock2 0 R) D"
    by (rule apply_writes_absorb) (simp_all add: writes_keys writes_str_keys [OF assms(3)])
  have hier: "apply_links (links R) ?H1 = ?H1"
    using assms(2) links_wf [OF assms(3)] by (rule apply_links_idem)
  have "update_from_search L clock2 R ?c1 = save L (?c1\<lparr>data := ?d2\<rparr>)"
    unfolding update_from_search_cache_data [OF d1 w1 assms(3)]
    by (simp only: pages dbs hier)
  also have "\<dots> = save L (c\<lparr>data := ?d2\<rparr>)"
    unfolding first
    using save_again [where L = L and c = "c\<lparr>data := cache_data ?P1 ?D1 ?H1 ?r1\<rparr>" and d = ?d2]
    by simp
  also have "\<dots> = update_from_search L clock2 R c"
    using assms by (rule update_from_search_cache_data [symmetric])
  finally show ?thesis .
qed

text \<open>
  Without its field \<^verbatim>\<open>last_seen\<close>, the entry stored for a result does not depend on
  the clock.
\<close>

lemma timeless_cache_data:
  "timeless (cache_data P D H r) =
     cache_data (map (\<lambda>kv. (fst kv, without_last_seen (snd kv))) P)
                (map (\<lambda>kv. (fst kv, without_last_seen (snd kv))) D) H JNull"
  by (simp add: timeless_def cache_data_def entries_without_last_seen_def)

lemma map_dict_set:
  "map (\<lambda>kv. (fst kv, g (snd kv))) (dict_set P k v)
     = dict_set (map (\<lambda>kv. (fst kv, g (snd kv))) P) k (g v)"
  by (induction P) auto

lemma map_apply_writes:
  "map (\<lambda>kv. (fst kv, g (snd kv))) (apply_writes S P)
     = apply_writes (map (\<lambda>kv. (fst kv, g (snd kv))) S) (map (\<lambda>kv. (fst kv, g (snd kv))) P)"
  by (induction S arbitrary: P) (simp_all add: map_dict_set)

lemma without_last_seen_result_entry:
  "without_last_seen (result_entry L now item) =
     (case read_result item of
        Inl e \<Rightarrow> JNull
      | Inr (obj_type, item_id, title, parent_id, url, archived) \<Rightarrow>
          JObj [(JStr ''id'', item_id), (JStr ''title'', title), (JStr ''parent_id'', parent_id),
                (JStr ''url'', url), (JStr ''archived'', archived)])"
  by (simp add: result_entry_def without_last_seen_def cache_entry_def
      split: sum.splits prod.splits)

lemma writes_without_last_seen:
  "map (\<lambda>kv. (fst kv, without_last_seen (snd kv))) (writes k L clock i R)
     = map (\<lambda>kv. (fst kv, without_last_seen (snd kv))) (writes k L clock' j R)"
  by (induction R arbitrary: i j) (simp_all add: without_last_seen_result_entry)

lemma timeless_update_from_search:
  assumes "data c = cache_data P D H r" "wf_hierarchy H" "list_all wf_result R"
  shows "timeless (data (snd (update_from_search L clock2 R c)))
           = timeless (data (snd (update_from_search L clock1 R c)))"
  unfolding update_from_search_data [OF assms] timeless_cache_data map_apply_writes
  by (simp only: writes_without_last_seen [of _ L clock2 0 R clock1 0])

text \<open>The message of the not-found error contains the kind and the name.\<close>

lemma is_substring_append: "is_substring t (a @ t @ b)"
proof (induction a)
  case Nil
  show ?case
  proof (cases "t @ b")
    case Nil
    then show ?thesis by simp
  next
    case (Cons y ys)
    have "take (length t) (y # ys) = t"
      unfolding Cons [symmetric] by simp
    then show ?thesis by (simp add: Cons)
  qed
next
  case (Cons x a)
  then show ?case by simp
qed

subsection \<open>Evaluation of the examples\<close>

lemmas eval_simps =
  update_from_search_def update_item_def read_result_def cache_entry_def
  extract_title_def parent_of_def store_entry_def update_hierarchy_def modify_at_def
  attempt_def then_do_def save_def seq_pos_def init_def load_def read_json_def empty_data_def
  mkdir_parent_def path_exists_def read_text_def write_text_def new_cache_def
  cache_data_def example_lib_def example_page_def example_database_def workspace_parent_def
  page_parent_def example_entry_def example_cache_def
  find_by_path_def find_by_title_def get_title_def strip_def is_space_def lower_def
  lower_char_def is_stale_def timedelta_hours_def CACHE_TTL_HOURS_def mapping_keys_def
  still_clock_def no_network_def search_answers_def

lemma init_NoFile: "init L NoFile = Inr new_cache"
  by (simp add: init_def load_def mkdir_parent_def path_exists_def new_cache_def)

subsection \<open>C1: staleness\<close>

text \<open>
  C1, as stated, fails: a cache refreshed at \<^verbatim>\<open>2026-01-01T00:00:00\<close> and asked exactly 24
  hours later (86400000000 microseconds) is not stale, because \<open>is_stale\<close> compares with
  a strict \<^verbatim>\<open>>\<close>.
\<close>

theorem is_stale_at_exactly_24_hours_counterexample:
  "is_stale example_lib (0 + 24 * 3600 * 1000000)
     \<lparr>data = cache_data [] [] [] (JStr ''2026-01-01T00:00:00''), disk = NoFile\<rparr>
   = Inr False
   \<and> fromisoformat example_lib ''2026-01-01T00:00:00'' = Some (Naive 0)"
  by (simp add: eval_simps)

text \<open>
  C1, amended.  On a cache that is a dictionary, \<open>is_stale\<close> returns true when
  \<^verbatim>\<open>last_refresh\<close> is missing or \<^verbatim>\<open>None\<close>; when it is the ISO text of an instant \<open>t\<close>,
  \<open>is_stale\<close> returns true if and only if strictly more than 24 hours have passed since
  \<open>t\<close>, and so returns false when exactly 24 hours have passed.
\<close>

theorem is_stale_iff_more_than_24_hours:
  assumes "data c = JObj kvs"
  shows "(dict_find kvs (JStr ''last_refresh'') = None
            \<or> dict_find kvs (JStr ''last_refresh'') = Some JNull
          \<longrightarrow> is_stale L now c = Inr True)
       \<and> (\<forall>txt t. dict_find kvs (JStr ''last_refresh'') = Some (JStr txt) \<and> txt \<noteq> []
                    \<and> fromisoformat L txt = Some (Naive t)
            \<longrightarrow> is_stale L now c = Inr (now - t > 24 * 3600 * 1000000)
                \<and> (now - t = 24 * 3600 * 1000000 \<longrightarrow> is_stale L now c = Inr False))"
  using assms
  by (auto simp: is_stale_def timedelta_hours_def CACHE_TTL_HOURS_def)

theorem is_stale_iff_more_than_24_hours_witness:
  "is_stale example_lib 86400000000
     \<lparr>data = JObj [(JStr ''last_refresh'', JStr ''2026-01-01T00:00:00'')], disk = NoFile\<rparr>
   = Inr False
   \<and> is_stale example_lib 86400000001
     \<lparr>data = JObj [(JStr ''last_refresh'', JStr ''2026-01-01T00:00:00'')], disk = NoFile\<rparr>
   = Inr True
   \<and> init example_lib NoFile = Inr new_cache
   \<and> is_stale example_lib 0 new_cache = Inr True"
proof -
  let ?c = "\<lparr>data = JObj [(JStr ''last_refresh'', JStr ''2026-01-01T00:00:00'')],
             disk = NoFile\<rparr>"
  have h: "data ?c = JObj [(JStr ''last_refresh'', JStr ''2026-01-01T00:00:00'')]"
    by simp
  have f: "fromisoformat example_lib ''2026-01-01T00:00:00'' = Some (Naive 0)"
    by (simp add: example_lib_def)
  have a: "is_stale example_lib 86400000000 ?c = Inr False"
    using is_stale_iff_more_than_24_hours [OF h, of example_lib 86400000000] f by simp
  have b: "is_stale example_lib 86400000001 ?c = Inr True"
    using is_stale_iff_more_than_24_hours [OF h, of example_lib 86400000001] f by simp
  have h0: "data new_cache =
      JObj [(JStr ''pages'', JObj []), (JStr ''databases'', JObj []),
            (JStr ''hierarchy'', JObj []), (JStr ''last_refresh'', JNull)]"
    by (simp add: new_cache_def empty_data_def)
  have c: "is_stale example_lib 0 new_cache = Inr True"
    using is_stale_iff_more_than_24_hours [OF h0, of example_lib 0] by simp
  have i: "init example_lib NoFile = Inr new_cache"
    by (rule init_NoFile)
  show ?thesis
    by (intro conjI) (fact a, fact b, fact i, fact c)
qed

subsection \<open>C2: the first segment of a path\<close>

text \<open>
  C2, as stated, fails: the only page titled \<^verbatim>\<open>Work\<close> has the parent \<^verbatim>\<open>x\<close>, and the path
  \<^verbatim>\<open>Work/Notes\<close> still resolves, to the page \<^verbatim>\<open>b\<close> under it.  \<open>find_by_title\<close> reads
  the argument \<^verbatim>\<open>parent_id=None\<close> as no constraint.
\<close>

theorem first_segment_counterexample:
  "find_by_path
     (example_cache
        [(JStr ''a'', example_entry ''a'' ''Work'' (JStr ''x'')),
         (JStr ''b'', example_entry ''b'' ''Notes'' (JStr ''a''))] [])
     ''Work/Notes'' ''page''
   = Inr (JStr ''b'')"
  by (simp add: eval_simps)

text \<open>
  C2, amended.  For a path of two or more segments, the first segment resolves to the
  first entry of the requested kind whose title equals it, case ignored, whatever the
  \<^verbatim>\<open>parent_id\<close> of that entry; the lookup goes on under that entry, and returns not-found
  only when no entry has the title (or the identifier found is empty).
\<close>

theorem first_segment_has_no_parent_constraint:
  assumes "collection_of c obj_type = Inr (JObj kvs)" "wf_collection kvs"
    and "map strip (split_slash path) = p0 # p1 # rest"
  shows "find_by_path c path obj_type =
     (case filter (title_is p0) kvs of
        [] \<Rightarrow> Inr JNull
      | kv # others \<Rightarrow> if truthy (fst kv) then traverse c obj_type 1 (fst kv) (p1 # rest)
                       else Inr JNull)"
  using assms(3) find_by_title_wf [OF assms(1,2), of p0 JNull]
  by (simp add: find_by_path_def split: list.splits)

theorem first_segment_has_no_parent_constraint_witness:
  "find_by_path
     (example_cache
        [(JStr ''a'', example_entry ''a'' ''Work'' (JStr ''x'')),
         (JStr ''b'', example_entry ''b'' ''Notes'' (JStr ''a''))] [])
     ''Work/Notes'' ''page''
   = traverse
       (example_cache
          [(JStr ''a'', example_entry ''a'' ''Work'' (JStr ''x'')),
           (JStr ''b'', example_entry ''b'' ''Notes'' (JStr ''a''))] [])
       ''page'' 1 (JStr ''a'') [''Notes'']"
proof -
  let ?P = "[(JStr ''a'', example_entry ''a'' ''Work'' (JStr ''x'')),
             (JStr ''b'', example_entry ''b'' ''Notes'' (JStr ''a''))]"
  have 1: "collection_of (example_cache ?P []) ''page'' = Inr (JObj ?P)"
    by (simp add: collection_of_def example_cache_def cache_data_def)
  have 2: "wf_collection ?P"
    by (simp add: wf_collection_def wf_entry_def example_entry_def)
  have 3: "map strip (split_slash ''Work/Notes'') = ''Work'' # ''Notes'' # []"
    by (simp add: strip_def is_space_def)
  have 4: "filter (title_is ''Work'') ?P = [(JStr ''a'', example_entry ''a'' ''Work'' (JStr ''x''))]"
    by (simp add: title_is_def entry_title_def example_entry_def lower_def lower_char_def)
  show ?thesis
    using first_segment_has_no_parent_constraint [OF 1 2 3] 4 by simp
qed

subsection \<open>C3: a workspace parent\<close>

text \<open>
  C3.  The claim says what the code sets out to do, and the code misses it.  The guard of
  the hierarchy block, \<^verbatim>\<open>parent_id and parent_id != "workspace"\<close>, is there to keep a
  workspace parent out of the hierarchy, and the tests of the repository write the entry
  of a root page with \<^verbatim>\<open>parent_id\<close> \<^verbatim>\<open>None\<close>.  But the remote API describes a workspace
  parent as \<^verbatim>\<open>{"type": "workspace", "workspace": true}\<close>, and
  \<^verbatim>\<open>parent.get("workspace")\<close> is then \<^verbatim>\<open>True\<close>.  For the page \<^verbatim>\<open>p1\<close> with that parent, on
  the cache of a first start, \<open>update_from_search\<close> stores the entry with
  \<^verbatim>\<open>parent_id = True\<close>, not \<^verbatim>\<open>None\<close>; the guard compares \<^verbatim>\<open>True\<close> with the string
  \<^verbatim>\<open>"workspace"\<close> and lets it through, and the hierarchy gets the key \<^verbatim>\<open>True\<close> with the
  child \<^verbatim>\<open>p1\<close>.  Only a parent whose field \<^verbatim>\<open>workspace\<close> holds the string \<^verbatim>\<open>"workspace"\<close>
  is kept out of the hierarchy.
\<close>

theorem workspace_parent_becomes_a_hierarchy_key:
  "fst (update_from_search example_lib (still_clock 0)
          [example_page ''p1'' ''Notes'' workspace_parent] new_cache) = None
   \<and> data (snd (update_from_search example_lib (still_clock 0)
          [example_page ''p1'' ''Notes'' workspace_parent] new_cache))
     = cache_data
         [(JStr ''p1'',
           JObj [(JStr ''id'', JStr ''p1''), (JStr ''title'', JStr ''Notes''),
                 (JStr ''parent_id'', JBool True), (JStr ''url'', JStr ''u''),
                 (JStr ''last_seen'', JStr ''2026-01-01T00:00:00''),
                 (JStr ''archived'', JBool False)])]
         []
         [(JBool True, JArr [JStr ''p1''])]
         (JStr ''2026-01-01T00:00:00'')
   \<and> data (snd (update_from_search example_lib (still_clock 0)
          [example_page ''p1'' ''Notes'' (JObj [(JStr ''workspace'', JStr ''workspace'')])]
          new_cache))
     = cache_data
         [(JStr ''p1'',
           JObj [(JStr ''id'', JStr ''p1''), (JStr ''title'', JStr ''Notes''),
                 (JStr ''parent_id'', JStr ''workspace''), (JStr ''url'', JStr ''u''),
                 (JStr ''last_seen'', JStr ''2026-01-01T00:00:00''),
                 (JStr ''archived'', JBool False)])]
         []
         []
         (JStr ''2026-01-01T00:00:00'')"
  by (simp add: eval_simps)

subsection \<open>C4: the fallback search\<close>

text \<open>
  C4.  When the name is not an identifier and the lookup in the cache returns nothing,
  \<open>resolve_id\<close> calls the search with the text after the last \<^verbatim>\<open>/\<close> and the requested
  kind, whatever follows.  If the search raises, that exception is the outcome.  If it
  returns no result, the outcome is the error \<^verbatim>\<open>Could not find\<close>, followed by the kind
  and by the name between apostrophes (the character \<open>0x27\<close>), and the cache is unchanged.
  If it returns results, they go through \<open>update_from_search\<close> and the lookup is repeated
  on the updated cache: its result is returned, or the same error is raised; an exception
  of \<open>update_from_search\<close> or of the repeated lookup is the outcome.  The message of
  the error contains the kind and the name.  In every case the search stands in the list
  of calls before the outcome.
\<close>

theorem resolve_id_searches_before_failing:
  assumes "\<not> is_uuid name_or_id"
    and "find_by_path c name_or_id obj_type = Inr miss" and "\<not> truthy miss"
  shows
    "(\<exists>later. snd (snd (resolve_id L clock search c name_or_id obj_type)) =
        [FindByPath name_or_id obj_type, Echo name_or_id,
         SearchNotion (last (split_slash name_or_id)) obj_type] @ later)
     \<and> (\<forall>e. search (last (split_slash name_or_id)) obj_type = Inl e \<longrightarrow>
           resolve_id L clock search c name_or_id obj_type =
             (Inl e, c, [FindByPath name_or_id obj_type, Echo name_or_id,
                         SearchNotion (last (split_slash name_or_id)) obj_type]))
     \<and> (\<exists>msg. msg = ''Could not find '' @ obj_type @ '' '' @ [CHR 0x27] @ name_or_id @ [CHR 0x27]
           \<and> is_substring obj_type msg \<and> is_substring name_or_id msg
           \<and> (search (last (split_slash name_or_id)) obj_type = Inr [] \<longrightarrow>
                 resolve_id L clock search c name_or_id obj_type =
                   (Inl (ClickException msg), c,
                    [FindByPath name_or_id obj_type, Echo name_or_id,
                     SearchNotion (last (split_slash name_or_id)) obj_type]))
           \<and> (\<forall>results c' found.
                 search (last (split_slash name_or_id)) obj_type = Inr results \<and> results \<noteq> []
                 \<and> update_from_search L clock results c = (None, c')
                 \<and> find_by_path c' name_or_id obj_type = Inr found \<longrightarrow>
                 resolve_id L clock search c name_or_id obj_type =
                   (if truthy found then Inr found else Inl (ClickException msg), c',
                    [FindByPath name_or_id obj_type, Echo name_or_id,
                     SearchNotion (last (split_slash name_or_id)) obj_type,
                     UpdateFromSearch results, FindByPath name_or_id obj_type])))
     \<and> (\<forall>results e c'.
           search (last (split_slash name_or_id)) obj_type = Inr results \<and> results \<noteq> []
           \<and> update_from_search L clock results c = (Some e, c') \<longrightarrow>
           resolve_id L clock search c name_or_id obj_type =
             (Inl e, c',
              [FindByPath name_or_id obj_type, Echo name_or_id,
               SearchNotion (last (split_slash name_or_id)) obj_type,
               UpdateFromSearch results]))
     \<and> (\<forall>results c' e.
           search (last (split_slash name_or_id)) obj_type = Inr results \<and> results \<noteq> []
           \<and> update_from_search L clock results c = (None, c')
           \<and> find_by_path c' name_or_id obj_type = Inl e \<longrightarrow>
           resolve_id L clock search c name_or_id obj_type =
             (Inl e, c',
              [FindByPath name_or_id obj_type, Echo name_or_id,
               SearchNotion (last (split_slash name_or_id)) obj_type,
               UpdateFromSearch results, FindByPath name_or_id obj_type]))"
proof -
  let ?msg = "''Could not find '' @ obj_type @ '' '' @ [CHR 0x27] @ name_or_id @ [CHR 0x27]"
  let ?q = "last (split_slash name_or_id)"
  let ?evs = "[FindByPath name_or_id obj_type, Echo name_or_id, SearchNotion ?q obj_type]"
  have nf: "not_found obj_type name_or_id = ClickException ?msg"
    by (simp add: not_found_def)
  have n1: "is_substring obj_type ?msg"
    by (rule is_substring_append)
  have n2: "is_substring name_or_id ?msg"
    using is_substring_append [of name_or_id "''Could not find '' @ obj_type @ '' '' @ [CHR 0x27]"
        "[CHR 0x27]"]
    by simp
  have a: "\<exists>later. snd (snd (resolve_id L clock search c name_or_id obj_type)) = ?evs @ later"
    using assms
    by (auto simp: resolve_id_def Let_def split: sum.splits prod.splits option.splits)
  have b: "\<forall>e. search ?q obj_type = Inl e \<longrightarrow>
             resolve_id L clock search c name_or_id obj_type = (Inl e, c, ?evs)"
    using assms by (simp add: resolve_id_def Let_def)
  have c1: "search ?q obj_type = Inr [] \<longrightarrow>
             resolve_id L clock search c name_or_id obj_type = (Inl (ClickException ?msg), c, ?evs)"
    using assms by (simp add: resolve_id_def Let_def nf)
  have c2: "\<forall>results c' found.
              search ?q obj_type = Inr results \<and> results \<noteq> []
              \<and> update_from_search L clock results c = (None, c')
              \<and> find_by_path c' name_or_id obj_type = Inr found \<longrightarrow>
              resolve_id L clock search c name_or_id obj_type =
                (if truthy found then Inr found else Inl (ClickException ?msg), c',
                 ?evs @ [UpdateFromSearch results, FindByPath name_or_id obj_type])"
    using assms by (simp add: resolve_id_def Let_def nf)
  have d: "\<forall>results e c'.
              search ?q obj_type = Inr results \<and> results \<noteq> []
              \<and> update_from_search L clock results c = (Some e, c') \<longrightarrow>
              resolve_id L clock search c name_or_id obj_type =
                (Inl e, c', ?evs @ [UpdateFromSearch results])"
    using assms by (simp add: resolve_id_def Let_def)
  have e: "\<forall>results c' e.
              search ?q obj_type = Inr results \<and> results \<noteq> []
              \<and> update_from_search L clock results c = (None, c')
              \<and> find_by_path c' name_or_id obj_type = Inl e \<longrightarrow>
              resolve_id L clock search c name_or_id obj_type =
                (Inl e, c', ?evs @ [UpdateFromSearch results, FindByPath name_or_id obj_type])"
    using assms by (simp add: resolve_id_def Let_def)
  have c: "\<exists>msg. msg = ?msg \<and> is_substring obj_type msg \<and> is_substring name_or_id msg
           \<and> (search ?q obj_type = Inr [] \<longrightarrow>
                 resolve_id L clock search c name_or_id obj_type =
                   (Inl (ClickException msg), c, ?evs))
           \<and> (\<forall>results c' found.
                 search ?q obj_type = Inr results \<and> results \<noteq> []
                 \<and> update_from_search L clock results c = (None, c')
                 \<and> find_by_path c' name_or_id obj_type = Inr found \<longrightarrow>
                 resolve_id L clock search c name_or_id obj_type =
                   (if truthy found then Inr found else Inl (ClickException msg), c',
                    ?evs @ [UpdateFromSearch results, FindByPath name_or_id obj_type]))"
    by (intro exI conjI) (rule refl, fact n1, fact n2, fact c1, fact c2)
  from a b c d e show ?thesis
    by simp
qed

theorem resolve_id_searches_before_failing_witness:
  "resolve_id example_lib (still_clock 0)
     (search_answers [example_page ''p1'' ''Notes'' workspace_parent])
     new_cache ''Work/Notes'' ''page''
   = (Inl (ClickException (''Could not find page '' @ [CHR 0x27] @ ''Work/Notes'' @ [CHR 0x27])),
      snd (update_from_search example_lib (still_clock 0)
             [example_page ''p1'' ''Notes'' workspace_parent] new_cache),
      [FindByPath ''Work/Notes'' ''page'', Echo ''Work/Notes'', SearchNotion ''Notes'' ''page'',
       UpdateFromSearch [example_page ''p1'' ''Notes'' workspace_parent],
       FindByPath ''Work/Notes'' ''page''])
   \<and> is_substring ''page'' (''Could not find page '' @ [CHR 0x27] @ ''Work/Notes'' @ [CHR 0x27])
   \<and> is_substring ''Work/Notes''
        (''Could not find page '' @ [CHR 0x27] @ ''Work/Notes'' @ [CHR 0x27])"
proof -
  let ?R = "[example_page ''p1'' ''Notes'' workspace_parent]"
  let ?c = "new_cache"
  let ?c' = "snd (update_from_search example_lib (still_clock 0) ?R ?c)"
  let ?m = "''Could not find page '' @ [CHR 0x27] @ ''Work/Notes'' @ [CHR 0x27]"
  have 1: "\<not> is_uuid ''Work/Notes''"
    by (simp add: is_uuid_def)
  have 2: "find_by_path ?c ''Work/Notes'' ''page'' = Inr JNull"
    by (simp add: eval_simps)
  have 3: "\<not> truthy JNull"
    by simp
  have 4: "search_answers ?R (last (split_slash ''Work/Notes'')) ''page'' = Inr ?R"
    by (simp add: search_answers_def)
  have 5: "update_from_search example_lib (still_clock 0) ?R ?c = (None, ?c')"
    by (simp add: eval_simps)
  have 6: "find_by_path ?c' ''Work/Notes'' ''page'' = Inr JNull"
    by (simp add: eval_simps)
  have 7: "last (split_slash ''Work/Notes'') = ''Notes''"
    by simp
  have 8: "''Could not find '' @ ''page'' @ '' '' @ [CHR 0x27] @ ''Work/Notes'' @ [CHR 0x27] = ?m"
    by simp
  from resolve_id_searches_before_failing
         [OF 1 2 3, of example_lib "still_clock 0" "search_answers ?R"]
  obtain msg where
    m: "msg = ''Could not find '' @ ''page'' @ '' '' @ [CHR 0x27] @ ''Work/Notes'' @ [CHR 0x27]"
    and s1: "is_substring ''page'' msg" and s2: "is_substring ''Work/Notes'' msg"
    and r: "\<forall>results c' found.
              search_answers ?R (last (split_slash ''Work/Notes'')) ''page'' = Inr results
              \<and> results \<noteq> []
              \<and> update_from_search example_lib (still_clock 0) results ?c = (None, c')
              \<and> find_by_path c' ''Work/Notes'' ''page'' = Inr found \<longrightarrow>
              resolve_id example_lib (still_clock 0) (search_answers ?R) ?c ''Work/Notes'' ''page'' =
                (if truthy found then Inr found else Inl (ClickException msg), c',
                 [FindByPath ''Work/Notes'' ''page'', Echo ''Work/Notes'',
                  SearchNotion (last (split_slash ''Work/Notes'')) ''page'',
                  UpdateFromSearch results, FindByPath ''Work/Notes'' ''page''])"
    by (elim exE conjE)
  have mm: "msg = ?m"
    unfolding m by (rule 8)
  from r 4 5 6
  have "resolve_id example_lib (still_clock 0) (search_answers ?R) ?c ''Work/Notes'' ''page'' =
          (Inl (ClickException msg), ?c',
           [FindByPath ''Work/Notes'' ''page'', Echo ''Work/Notes'',
            SearchNotion (last (split_slash ''Work/Notes'')) ''page'',
            UpdateFromSearch ?R, FindByPath ''Work/Notes'' ''page''])"
    by auto
  then have a: "resolve_id example_lib (still_clock 0) (search_answers ?R) ?c ''Work/Notes'' ''page'' =
          (Inl (ClickException ?m), ?c',
           [FindByPath ''Work/Notes'' ''page'', Echo ''Work/Notes'', SearchNotion ''Notes'' ''page'',
            UpdateFromSearch ?R, FindByPath ''Work/Notes'' ''page''])"
    unfolding 7 mm .
  from s1 have b1: "is_substring ''page'' ?m"
    unfolding mm .
  from s2 have b2: "is_substring ''Work/Notes'' ?m"
    unfolding mm .
  show ?thesis
    by (intro conjI) (fact a, fact b1, fact b2)
qed

subsection \<open>C5: loading, and operations on what was loaded\<close>

text \<open>
  C5, as stated, fails in its second half.  \<open>load\<close> returns whatever \<^verbatim>\<open>json.load\<close>
  returns, with no check of its shape.  A cache file holding \<^verbatim>\<open>[]\<close> makes \<open>is_stale\<close>,
  \<open>find_by_path\<close> and \<open>get_title\<close> raise \<^verbatim>\<open>AttributeError\<close>; a file holding \<^verbatim>\<open>{}\<close>
  makes \<open>update_from_search\<close> raise \<^verbatim>\<open>KeyError\<close>.
\<close>

theorem malformed_persisted_state_counterexample:
  "init example_lib (File ''[]'') = Inr \<lparr>data = JArr [], disk = File ''[]''\<rparr>
   \<and> is_stale example_lib 0 \<lparr>data = JArr [], disk = File ''[]''\<rparr> = Inl AttributeError
   \<and> find_by_path \<lparr>data = JArr [], disk = File ''[]''\<rparr> ''Notes'' ''page'' = Inl AttributeError
   \<and> get_title \<lparr>data = JArr [], disk = File ''[]''\<rparr> (JStr ''p1'') = Inl AttributeError
   \<and> init example_lib (File ''{}'') = Inr \<lparr>data = JObj [], disk = File ''{}''\<rparr>
   \<and> fst (update_from_search example_lib (still_clock 0)
             [example_page ''p1'' ''Notes'' workspace_parent]
             \<lparr>data = JObj [], disk = File ''{}''\<rparr>)
       = Some KeyError"
  by (simp add: eval_simps)

text \<open>
  C5, amended.  \<open>load\<close> never raises for what the file holds: when nothing is at the
  path, when what is there cannot be read, or when its text does not parse, \<open>load\<close>
  yields the default empty structure, and a text that parses is returned as parsed; an
  exception leaves \<open>load\<close> only when \<^verbatim>\<open>exists\<close> itself raises it.  The default structure
  has the documented shape, and on every cache of the documented shape \<open>is_stale\<close>,
  \<open>find_by_path\<close> and \<open>get_title\<close> do not raise.  On such a cache
  \<open>update_from_search\<close> with well-formed results leaves a cache of the documented
  shape; it does not raise when the path takes the write, and when the path refuses the
  write it raises the \<^verbatim>\<open>OSError\<close> of \<open>save\<close>, with the cache updated in memory.
\<close>

theorem load_never_raises_and_documented_caches_never_raise:
  "(f = NoFile \<or> f = Uncreatable \<or> f = NoDirectory \<or> f = Unreadable \<or> f = WriteOnly
      \<or> (\<exists>content. (f = File content \<or> f = ReadOnly content) \<and> json_loads L content = None)
      \<longrightarrow> load L f = Inr empty_data)
   \<and> (\<forall>content j. (f = File content \<or> f = ReadOnly content) \<and> json_loads L content = Some j
        \<longrightarrow> load L f = Inr j)
   \<and> (\<forall>e. load L f = Inl e \<longrightarrow> path_exists f = Inl e)
   \<and> empty_data = cache_data [] [] [] JNull
   \<and> (data c = cache_data P D H r \<and> wf_collection P \<and> wf_collection D \<and> wf_hierarchy H
        \<and> wf_refresh L r
      \<longrightarrow> (\<exists>b. is_stale L now c = Inr b)
        \<and> (\<exists>v. find_by_path c path obj_type = Inr v)
        \<and> (\<exists>v. get_title c (JStr item_id) = Inr v)
        \<and> (list_all wf_result R
            \<longrightarrow> (\<exists>c' P' D' H' r'.
                  update_from_search L clock R c
                    = (if writable (disk c) then None else Some OSError, c')
                  \<and> data c' = cache_data P' D' H' r'
                  \<and> wf_collection P' \<and> wf_collection D' \<and> wf_hierarchy H')))"
proof (intro conjI impI allI)
  assume "f = NoFile \<or> f = Uncreatable \<or> f = NoDirectory \<or> f = Unreadable \<or> f = WriteOnly
      \<or> (\<exists>content. (f = File content \<or> f = ReadOnly content) \<and> json_loads L content = None)"
  then show "load L f = Inr empty_data"
    by (auto simp: load_def read_json_def path_exists_def read_text_def)
next
  fix content j
  assume "(f = File content \<or> f = ReadOnly content) \<and> json_loads L content = Some j"
  then show "load L f = Inr j"
    by (auto simp: load_def read_json_def path_exists_def read_text_def)
next
  fix e
  assume "load L f = Inl e"
  then show "path_exists f = Inl e"
    by (cases "path_exists f") (auto simp: load_def split: sum.splits if_splits)
next
  show "empty_data = cache_data [] [] [] JNull"
    by (simp add: empty_data_def cache_data_def)
next
  assume a: "data c = cache_data P D H r \<and> wf_collection P \<and> wf_collection D \<and> wf_hierarchy H
        \<and> wf_refresh L r"
  then show "\<exists>b. is_stale L now c = Inr b"
    using is_stale_total by blast
next
  assume a: "data c = cache_data P D H r \<and> wf_collection P \<and> wf_collection D \<and> wf_hierarchy H
        \<and> wf_refresh L r"
  then show "\<exists>v. find_by_path c path obj_type = Inr v"
    using find_by_path_total by blast
next
  assume a: "data c = cache_data P D H r \<and> wf_collection P \<and> wf_collection D \<and> wf_hierarchy H
        \<and> wf_refresh L r"
  then show "\<exists>v. get_title c (JStr item_id) = Inr v"
    using get_title_total by blast
next
  assume a: "data c = cache_data P D H r \<and> wf_collection P \<and> wf_collection D \<and> wf_hierarchy H
        \<and> wf_refresh L r"
    and R: "list_all wf_result R"
  from a have d: "data c = cache_data P D H r" and wP: "wf_collection P" and wD: "wf_collection D"
    and wH: "wf_hierarchy H"
    by simp_all
  let ?P1 = "apply_writes (writes ''page'' L clock 0 R) P"
  let ?D1 = "apply_writes (writes ''database'' L clock 0 R) D"
  let ?H1 = "apply_links (links R) H"
  let ?r1 = "JStr (isoformat L (clock (length R)))"
  let ?m = "c\<lparr>data := cache_data ?P1 ?D1 ?H1 ?r1\<rparr>"
  let ?c' = "snd (update_from_search L clock R c)"
  have u: "update_from_search L clock R c = save L ?m"
    using d wH R by (rule update_from_search_cache_data)
  have 1: "update_from_search L clock R c
             = (if writable (disk c) then None else Some OSError, ?c')"
  proof (cases "writable (disk c)")
    case True
    then have "writable (disk ?m)" by simp
    from save_writable [OF this, of L] show ?thesis
      unfolding u using True by auto
  next
    case False
    then have "\<not> writable (disk ?m)" by simp
    from save_not_writable [OF this, of L] show ?thesis
      unfolding u using False by simp
  qed
  have 2: "data ?c' = cache_data ?P1 ?D1 ?H1 ?r1"
    using d wH R by (rule update_from_search_data)
  have 3: "wf_collection ?P1"
    using wP writes_wf_entries [OF R] by (rule wf_collection_apply_writes)
  have 4: "wf_collection ?D1"
    using wD writes_wf_entries [OF R] by (rule wf_collection_apply_writes)
  have 5: "wf_hierarchy ?H1"
    using wH by (rule wf_hierarchy_apply_links)
  show "\<exists>c' P' D' H' r'.
          update_from_search L clock R c = (if writable (disk c) then None else Some OSError, c')
          \<and> data c' = cache_data P' D' H' r'
          \<and> wf_collection P' \<and> wf_collection D' \<and> wf_hierarchy H'"
    by (intro exI conjI) (fact 1, fact 2, fact 3, fact 4, fact 5)
qed

theorem load_never_raises_and_documented_caches_never_raise_witness:
  "load example_lib (File ''{ broken'') = Inr empty_data
   \<and> load example_lib NoFile = Inr empty_data
   \<and> load example_lib Unreadable = Inr empty_data
   \<and> load example_lib (File ''[]'') = Inr (JArr [])
   \<and> (\<exists>b. is_stale example_lib 5 new_cache = Inr b)
   \<and> (\<exists>v. find_by_path new_cache ''Work/Notes'' ''page'' = Inr v)
   \<and> (\<exists>v. get_title new_cache (JStr ''p1'') = Inr v)
   \<and> (\<exists>c'. update_from_search example_lib (still_clock 0)
              [example_page ''p1'' ''Notes'' workspace_parent] new_cache
            = (None, c'))
   \<and> (\<exists>c'. update_from_search example_lib (still_clock 0)
              [example_page ''p1'' ''Notes'' workspace_parent]
              \<lparr>data = empty_data, disk = Unreadable\<rparr>
            = (Some OSError, c') \<and> data c' \<noteq> empty_data)"
proof -
  let ?c = "new_cache"
  let ?u = "\<lparr>data = empty_data, disk = Unreadable\<rparr>"
  let ?R = "[example_page ''p1'' ''Notes'' workspace_parent]"
  have p: "json_loads example_lib ''{ broken'' = None" "json_loads example_lib ''[]'' = Some (JArr [])"
    by (simp_all add: example_lib_def)
  have w: "data ?c = cache_data [] [] [] JNull \<and> wf_collection [] \<and> wf_collection []
            \<and> wf_hierarchy [] \<and> wf_refresh example_lib JNull"
    by (simp add: new_cache_def empty_data_def cache_data_def wf_collection_def
        wf_hierarchy_def wf_refresh_def)
  have wu: "data ?u = cache_data [] [] [] JNull \<and> wf_collection [] \<and> wf_collection []
            \<and> wf_hierarchy [] \<and> wf_refresh example_lib JNull"
    by (simp add: empty_data_def cache_data_def wf_collection_def
        wf_hierarchy_def wf_refresh_def)
  have R: "list_all wf_result ?R"
    by (simp add: wf_result_def wf_opt_def wf_page_props_def wf_title_prop_def wf_rich_text_def
        wf_parent_def example_page_def workspace_parent_def)
  have wr: "writable (disk ?c)" "\<not> writable (disk ?u)"
    by (simp_all add: writable_def write_text_def new_cache_def)
  note T = load_never_raises_and_documented_caches_never_raise
  from T [where f = "File ''{ broken''" and L = example_lib] p
  have a: "load example_lib (File ''{ broken'') = Inr empty_data" by blast
  from T [where f = NoFile and L = example_lib]
  have b: "load example_lib NoFile = Inr empty_data" by blast
  from T [where f = Unreadable and L = example_lib]
  have b': "load example_lib Unreadable = Inr empty_data" by blast
  from T [where f = "File ''[]''" and L = example_lib] p
  have c: "load example_lib (File ''[]'') = Inr (JArr [])" by blast
  from T [where f = NoFile and L = example_lib and c = ?c and P = "[]" and D = "[]" and H = "[]"
            and r = JNull and now = 5 and path = "''Work/Notes''" and obj_type = "''page''"
            and item_id = "''p1''" and R = ?R and clock = "still_clock 0"] w R
  have d: "(\<exists>b. is_stale example_lib 5 ?c = Inr b)
     \<and> (\<exists>v. find_by_path ?c ''Work/Notes'' ''page'' = Inr v)
     \<and> (\<exists>v. get_title ?c (JStr ''p1'') = Inr v)
     \<and> (\<exists>c' P' D' H' r'. update_from_search example_lib (still_clock 0) ?R ?c
            = (if writable (disk ?c) then None else Some OSError, c')
          \<and> data c' = cache_data P' D' H' r'
          \<and> wf_collection P' \<and> wf_collection D' \<and> wf_hierarchy H')"
    by blast
  from d have d1: "\<exists>b. is_stale example_lib 5 ?c = Inr b"
    by (rule conjunct1)
  from d have d2: "\<exists>v. find_by_path ?c ''Work/Notes'' ''page'' = Inr v"
    by (elim conjE)
  from d have d3: "\<exists>v. get_title ?c (JStr ''p1'') = Inr v"
    by (elim conjE)
  from d obtain c' where "update_from_search example_lib (still_clock 0) ?R ?c
            = (if writable (disk ?c) then None else Some OSError, c')"
    by (elim exE conjE)
  then have d4: "\<exists>c'. update_from_search example_lib (still_clock 0) ?R ?c = (None, c')"
    using wr(1) by simp
  from T [where f = NoFile and L = example_lib and c = ?u and P = "[]" and D = "[]" and H = "[]"
            and r = JNull and now = 5 and path = "''Work/Notes''" and obj_type = "''page''"
            and item_id = "''p1''" and R = ?R and clock = "still_clock 0"] wu R
  have "\<exists>c' P' D' H' r'. update_from_search example_lib (still_clock 0) ?R ?u
            = (if writable (disk ?u) then None else Some OSError, c')
          \<and> data c' = cache_data P' D' H' r'
          \<and> wf_collection P' \<and> wf_collection D' \<and> wf_hierarchy H'"
    by blast
  then obtain c'' where e1: "update_from_search example_lib (still_clock 0) ?R ?u
            = (if writable (disk ?u) then None else Some OSError, c'')"
    by (elim exE conjE)
  from e1 wr(2) have e2: "update_from_search example_lib (still_clock 0) ?R ?u = (Some OSError, c'')"
    by simp
  have "data (snd (update_from_search example_lib (still_clock 0) ?R ?u)) \<noteq> empty_data"
    by (simp add: eval_simps)
  with e2 have "update_from_search example_lib (still_clock 0) ?R ?u = (Some OSError, c'')
      \<and> data c'' \<noteq> empty_data"
    by simp
  then have e: "\<exists>c'. update_from_search example_lib (still_clock 0) ?R ?u = (Some OSError, c')
      \<and> data c' \<noteq> empty_data"
    by (rule exI)
  show ?thesis
    by (intro conjI) (fact a, fact b, fact b', fact c, fact d1, fact d2, fact d3, fact d4, fact e)
qed

subsection \<open>C6: applying the same results twice\<close>

text \<open>
  C6.  On a cache of the documented shape and for well-formed results \<open>R\<close>,
  \<open>update_from_search\<close> applied a second time with the same results and the same
  readings of the clock returns what the first application returned and leaves the cache,
  in memory and on the disk, as the first application left it.  The clock is an input:
  every application writes its readings into \<^verbatim>\<open>last_seen\<close> and \<^verbatim>\<open>last_refresh\<close>.  When
  the clock has moved between the two applications, the cache after the second is the
  cache after the first in everything but these time stamps: the same identifiers under
  the same kinds and in the same order, with the same titles, parents, addresses and
  archived flags, and the same hierarchy.
\<close>

theorem update_from_search_is_idempotent:
  assumes "data c = cache_data P D H r" "wf_hierarchy H" "list_all wf_result R"
  shows "update_from_search L clock R (snd (update_from_search L clock R c))
           = update_from_search L clock R c
       \<and> timeless (data (snd (update_from_search L clock2 R
                                  (snd (update_from_search L clock1 R c)))))
           = timeless (data (snd (update_from_search L clock1 R c)))"
proof
  show "update_from_search L clock R (snd (update_from_search L clock R c))
          = update_from_search L clock R c"
    using assms by (rule update_from_search_again)
next
  have "timeless (data (snd (update_from_search L clock2 R
                               (snd (update_from_search L clock1 R c)))))
          = timeless (data (snd (update_from_search L clock2 R c)))"
    by (simp only: update_from_search_again [OF assms])
  also have "\<dots> = timeless (data (snd (update_from_search L clock1 R c)))"
    using assms by (rule timeless_update_from_search)
  finally show "timeless (data (snd (update_from_search L clock2 R
                                       (snd (update_from_search L clock1 R c)))))
                  = timeless (data (snd (update_from_search L clock1 R c)))" .
qed

theorem update_from_search_is_idempotent_witness:
  "update_from_search example_lib (still_clock 0)
     [example_page ''p1'' ''Notes'' workspace_parent,
      example_database ''d1'' ''Tasks'' (page_parent ''p1'')]
     (snd (update_from_search example_lib (still_clock 0)
             [example_page ''p1'' ''Notes'' workspace_parent,
              example_database ''d1'' ''Tasks'' (page_parent ''p1'')]
             new_cache))
   = update_from_search example_lib (still_clock 0)
       [example_page ''p1'' ''Notes'' workspace_parent,
        example_database ''d1'' ''Tasks'' (page_parent ''p1'')]
       new_cache
   \<and> timeless (data (snd (update_from_search example_lib (still_clock 1)
       [example_page ''p1'' ''Notes'' workspace_parent,
        example_database ''d1'' ''Tasks'' (page_parent ''p1'')]
       (snd (update_from_search example_lib (still_clock 0)
               [example_page ''p1'' ''Notes'' workspace_parent,
                example_database ''d1'' ''Tasks'' (page_parent ''p1'')]
               new_cache)))))
   = timeless (data (snd (update_from_search example_lib (still_clock 0)
       [example_page ''p1'' ''Notes'' workspace_parent,
        example_database ''d1'' ''Tasks'' (page_parent ''p1'')]
       new_cache)))
   \<and> timeless (data (snd (update_from_search example_lib (still_clock 0)
       [example_page ''p1'' ''Notes'' workspace_parent,
        example_database ''d1'' ''Tasks'' (page_parent ''p1'')]
       new_cache)))
   = cache_data
       [(JStr ''p1'',
         JObj [(JStr ''id'', JStr ''p1''), (JStr ''title'', JStr ''Notes''),
               (JStr ''parent_id'', JBool True), (JStr ''url'', JStr ''u''),
               (JStr ''archived'', JBool False)])]
       [(JStr ''d1'',
         JObj [(JStr ''id'', JStr ''d1''), (JStr ''title'', JStr ''Tasks''),
               (JStr ''parent_id'', JStr ''p1''), (JStr ''url'', JStr ''u''),
               (JStr ''archived'', JBool False)])]
       [(JBool True, JArr [JStr ''p1'']), (JStr ''p1'', JArr [JStr ''d1''])]
       JNull"
proof -
  let ?R = "[example_page ''p1'' ''Notes'' workspace_parent,
             example_database ''d1'' ''Tasks'' (page_parent ''p1'')]"
  have 1: "data new_cache = cache_data [] [] [] JNull"
    by (simp add: new_cache_def empty_data_def cache_data_def)
  have 2: "wf_hierarchy []"
    by (simp add: wf_hierarchy_def)
  have 3: "list_all wf_result ?R"
    by (simp add: wf_result_def wf_opt_def wf_page_props_def wf_title_prop_def wf_rich_text_def
        wf_parent_def example_page_def example_database_def workspace_parent_def page_parent_def)
  note T = update_from_search_is_idempotent
    [OF 1 2 3, where L = example_lib and clock = "still_clock 0"
       and ?clock1.0 = "still_clock 0" and ?clock2.0 = "still_clock 1"]
  from T have a: "update_from_search example_lib (still_clock 0) ?R
       (snd (update_from_search example_lib (still_clock 0) ?R new_cache))
     = update_from_search example_lib (still_clock 0) ?R new_cache"
    by (rule conjunct1)
  from T have b: "timeless (data (snd (update_from_search example_lib (still_clock 1) ?R
       (snd (update_from_search example_lib (still_clock 0) ?R new_cache)))))
     = timeless (data (snd (update_from_search example_lib (still_clock 0) ?R new_cache)))"
    by (rule conjunct2)
  have c: "timeless (data (snd (update_from_search example_lib (still_clock 0) ?R new_cache)))
     = cache_data
       [(JStr ''p1'',
         JObj [(JStr ''id'', JStr ''p1''), (JStr ''title'', JStr ''Notes''),
               (JStr ''parent_id'', JBool True), (JStr ''url'', JStr ''u''),
               (JStr ''archived'', JBool False)])]
       [(JStr ''d1'',
         JObj [(JStr ''id'', JStr ''d1''), (JStr ''title'', JStr ''Tasks''),
               (JStr ''parent_id'', JStr ''p1''), (JStr ''url'', JStr ''u''),
               (JStr ''archived'', JBool False)])]
       [(JBool True, JArr [JStr ''p1'']), (JStr ''p1'', JArr [JStr ''d1''])]
       JNull"
    by (simp add: eval_simps timeless_def entries_without_last_seen_def without_last_seen_def)
  show ?thesis
    by (intro conjI) (fact a, fact b, fact c)
qed

subsection \<open>C7: an identifier is returned as it is\<close>

text \<open>
  C7.  When the argument, with its hyphens removed, is exactly 32 hexadecimal digits (of
  either case), \<open>resolve_id\<close> returns the argument itself, whatever the cache holds and
  whatever the remote search would answer: the cache is unchanged and the list of calls
  made on the cache and on the network is empty.  The hyphen is the only separator
  \<open>is_uuid\<close> removes.
\<close>

theorem resolve_id_returns_uuid_unchanged:
  assumes "length (filter (\<lambda>ch. ch \<noteq> CHR ''-'') name_or_id) = 32"
    and "list_all (\<lambda>ch. ch \<in> set ''0123456789abcdefABCDEF'')
           (filter (\<lambda>ch. ch \<noteq> CHR ''-'') name_or_id)"
  shows "resolve_id L clock search c name_or_id obj_type = (Inr (JStr name_or_id), c, [])"
proof -
  have "list_all (\<lambda>ch. ch \<in> set ''0123456789abcdef'')
          (lower (filter (\<lambda>ch. ch \<noteq> CHR ''-'') name_or_id))"
    using assms(2) lower_hex by (rule list_all_lower)
  with assms(1) have "is_uuid name_or_id"
    unfolding is_uuid_def Let_def by (rule conjI)
  then show ?thesis
    by (simp only: resolve_id_def if_True)
qed

theorem resolve_id_returns_uuid_unchanged_witness:
  "resolve_id example_lib (still_clock 0) no_network
     new_cache ''12345678-90ab-CDEF-1234-567890abcdef'' ''page''
   = (Inr (JStr ''12345678-90ab-CDEF-1234-567890abcdef''), new_cache, [])"
  by (rule resolve_id_returns_uuid_unchanged) simp_all

subsection \<open>C8: an identifier under one kind only\<close>

text \<open>
  C8, as stated, fails: nothing in \<open>update_from_search\<close> removes an identifier from the
  other mapping.  From the empty cache, one call whose results report the identifier
  \<^verbatim>\<open>x\<close> once as a page and once as a database leaves \<^verbatim>\<open>x\<close> in both mappings.
\<close>

theorem same_identifier_in_both_mappings_counterexample:
  "JStr ''x'' \<in> set (mapping_keys
       (snd (update_from_search example_lib (still_clock 0)
          [example_page ''x'' ''A'' workspace_parent,
           example_database ''x'' ''B'' workspace_parent] new_cache)) ''pages'')
   \<and> JStr ''x'' \<in> set (mapping_keys
       (snd (update_from_search example_lib (still_clock 0)
          [example_page ''x'' ''A'' workspace_parent,
           example_database ''x'' ''B'' workspace_parent] new_cache)) ''databases'')"
  by (simp add: eval_simps)

text \<open>
  C8, amended.  Start from a cache of the documented shape (the empty cache is one) and
  make any sequence of calls of \<open>is_stale\<close>, \<open>find_by_path\<close>, \<open>get_title\<close> and
  \<open>update_from_search\<close> with well-formed results.  If no identifier is cached or
  reported as a page and also cached or reported as a database, then after every number
  \<open>n\<close> of these calls no identifier is present in both mappings.
\<close>

theorem pages_and_databases_stay_disjoint:
  assumes "data c = cache_data P D H r" "wf_hierarchy H" "list_all results_ok ms"
    and "(fst ` set P \<union> set (reported ''page'' ms))
           \<inter> (fst ` set D \<union> set (reported ''database'' ms)) = {}"
  shows "set (mapping_keys (run L (take n ms) c) ''pages'')
           \<inter> set (mapping_keys (run L (take n ms) c) ''databases'') = {}"
proof -
  have ok: "list_all results_ok (take n ms)"
    using assms(3) by (rule list_all_take)
  from run_shape [OF assms(1,2) ok, of L]
  obtain P' D' H' r' where
    d: "data (run L (take n ms) c) = cache_data P' D' H' r'"
    and w: "wf_hierarchy H'"
    and p: "fst ` set P' = fst ` set P \<union> set (reported ''page'' (take n ms))"
    and q: "fst ` set D' = fst ` set D \<union> set (reported ''database'' (take n ms))"
    by (elim exE conjE)
  have "fst ` set P' \<inter> fst ` set D' = {}"
    unfolding p q using assms(4) reported_take [of "''page''" n ms]
      reported_take [of "''database''" n ms]
    by blast
  then show ?thesis
    by (simp add: mapping_keys_cache_data [OF d])
qed

theorem pages_and_databases_stay_disjoint_witness:
  "set (mapping_keys
          (run example_lib
             (take 3 [Update_from_search (still_clock 0)
                        [example_page ''p1'' ''Notes'' workspace_parent,
                         example_database ''d1'' ''Tasks'' (page_parent ''p1'')],
                      Find_by_path ''Notes'' ''page'',
                      Update_from_search (still_clock 1)
                        [example_page ''p2'' ''Plans'' (page_parent ''p1'')]])
             new_cache) ''pages'')
   \<inter> set (mapping_keys
          (run example_lib
             (take 3 [Update_from_search (still_clock 0)
                        [example_page ''p1'' ''Notes'' workspace_parent,
                         example_database ''d1'' ''Tasks'' (page_parent ''p1'')],
                      Find_by_path ''Notes'' ''page'',
                      Update_from_search (still_clock 1)
                        [example_page ''p2'' ''Plans'' (page_parent ''p1'')]])
             new_cache) ''databases'')
   = {}"
proof -
  let ?ms = "[Update_from_search (still_clock 0)
                [example_page ''p1'' ''Notes'' workspace_parent,
                 example_database ''d1'' ''Tasks'' (page_parent ''p1'')],
              Find_by_path ''Notes'' ''page'',
              Update_from_search (still_clock 1)
                [example_page ''p2'' ''Plans'' (page_parent ''p1'')]]"
  have 1: "data new_cache = cache_data [] [] [] JNull"
    by (simp add: new_cache_def empty_data_def cache_data_def)
  have 2: "wf_hierarchy []"
    by (simp add: wf_hierarchy_def)
  have 3: "list_all results_ok ?ms"
    by (simp add: wf_result_def wf_opt_def wf_page_props_def wf_title_prop_def wf_rich_text_def
        wf_parent_def example_page_def example_database_def workspace_parent_def page_parent_def)
  have 4: "(fst ` set [] \<union> set (reported ''page'' ?ms))
             \<inter> (fst ` set [] \<union> set (reported ''database'' ?ms)) = {}"
    by (simp add: result_id_def result_kind_def read_result_def extract_title_def parent_of_def
        seq_pos_def example_page_def example_database_def workspace_parent_def page_parent_def)
  show ?thesis
    by (rule pages_and_databases_stay_disjoint [OF 1 2 3 4])
qed

subsection \<open>C9: one collection for every segment\<close>

text \<open>
  C9.  \<open>find_by_path\<close> reads one collection only, the one of the requested kind: two
  caches with the same collection of that kind give the same answer for every path.  So
  when a segment of the path, the first, an intermediate or the last one, is the title of
  no entry of that collection, the result is not-found, whatever the other collection
  holds.
\<close>

theorem find_by_path_reads_one_collection:
  "(collection_of c' obj_type = collection_of c obj_type
      \<longrightarrow> find_by_path c' path obj_type = find_by_path c path obj_type)
   \<and> (collection_of c obj_type = Inr (JObj kvs) \<and> wf_collection kvs
        \<and> part \<in> set (map strip (split_slash path)) \<and> \<not> list_ex (title_is part) kvs
      \<longrightarrow> find_by_path c path obj_type = Inr JNull)"
proof (intro conjI impI)
  assume "collection_of c' obj_type = collection_of c obj_type"
  then show "find_by_path c' path obj_type = find_by_path c path obj_type"
    unfolding find_by_path_def
    by (simp only: find_by_title_cong [of c' obj_type c] traverse_cong [of c' obj_type c])
next
  assume a: "collection_of c obj_type = Inr (JObj kvs) \<and> wf_collection kvs
        \<and> part \<in> set (map strip (split_slash path)) \<and> \<not> list_ex (title_is part) kvs"
  let ?parts = "map strip (split_slash path)"
  from a have 1: "collection_of c obj_type = Inr (JObj kvs)" and 2: "wf_collection kvs"
    and 3: "part \<in> set ?parts" and 4: "\<not> list_ex (title_is part) kvs"
    by simp_all
  show "find_by_path c path obj_type = Inr JNull"
  proof (cases "length ?parts = 1")
    case True
    then obtain p where p: "?parts = [p]"
      by (cases ?parts) auto
    with 3 have "p = part" by simp
    then show ?thesis
      using p find_by_title_no_match [OF 1 2 4] by (simp add: find_by_path_def)
  next
    case False
    then show ?thesis
      using traverse_no_match [OF 1 2 4 3] by (simp add: find_by_path_def)
  qed
qed

theorem find_by_path_reads_one_collection_witness:
  "find_by_path
     (example_cache [(JStr ''p'', example_entry ''p'' ''Spec'' (JStr ''d''))]
                    [(JStr ''d'', example_entry ''d'' ''Projects'' JNull)])
     ''Projects/Spec'' ''page''
   = Inr JNull
   \<and> find_by_path
     (example_cache [(JStr ''p'', example_entry ''p'' ''Spec'' (JStr ''d''))] [])
     ''Projects/Spec'' ''page''
   = Inr JNull"
proof -
  let ?P = "[(JStr ''p'', example_entry ''p'' ''Spec'' (JStr ''d''))]"
  let ?D = "[(JStr ''d'', example_entry ''d'' ''Projects'' JNull)]"
  have 1: "collection_of (example_cache ?P ?D) ''page'' = Inr (JObj ?P)"
    by (simp add: collection_of_def example_cache_def cache_data_def)
  have 2: "wf_collection ?P"
    by (simp add: wf_collection_def wf_entry_def example_entry_def)
  have 3: "''Projects'' \<in> set (map strip (split_slash ''Projects/Spec''))"
    by (simp add: strip_def is_space_def)
  have 4: "\<not> list_ex (title_is ''Projects'') ?P"
    by (simp add: title_is_def entry_title_def example_entry_def lower_def lower_char_def)
  have 5: "collection_of (example_cache ?P []) ''page''
             = collection_of (example_cache ?P ?D) ''page''"
    by (simp add: collection_of_def example_cache_def cache_data_def)
  note T = find_by_path_reads_one_collection
    [of "example_cache ?P []" "''page''" "example_cache ?P ?D" "''Projects/Spec''" ?P "''Projects''"]
  from T 1 2 3 4
  have a: "find_by_path (example_cache ?P ?D) ''Projects/Spec'' ''page'' = Inr JNull"
    by blast
  from T 5 have "find_by_path (example_cache ?P []) ''Projects/Spec'' ''page''
      = find_by_path (example_cache ?P ?D) ''Projects/Spec'' ''page''"
    by blast
  with a show ?thesis by simp
qed

subsection \<open>C10: the reads change nothing\<close>

text \<open>
  C10.  A call of \<open>is_stale\<close>, \<open>find_by_path\<close> or \<open>get_title\<close>, with any argument and on
  any cache, returning or raising, leaves the cache as it was: the same \<^verbatim>\<open>data\<close> and the
  same file.
\<close>

theorem reads_leave_the_cache_unchanged:
  "is_read m \<Longrightarrow>
   snd (call L m c) = c \<and> data (snd (call L m c)) = data c \<and> disk (snd (call L m c)) = disk c"
  by (cases m) simp_all

theorem reads_leave_the_cache_unchanged_witness:
  "snd (call example_lib (Find_by_path ''Work/Notes'' ''page'')
          (example_cache [(JStr ''a'', example_entry ''a'' ''Work'' JNull)] []))
     = example_cache [(JStr ''a'', example_entry ''a'' ''Work'' JNull)] []
   \<and> snd (call example_lib (Is_stale 0) \<lparr>data = JArr [], disk = File ''[]''\<rparr>)
     = \<lparr>data = JArr [], disk = File ''[]''\<rparr>
   \<and> snd (call example_lib (Get_title (JStr ''a''))
          (example_cache [(JStr ''a'', example_entry ''a'' ''Work'' JNull)] []))
     = example_cache [(JStr ''a'', example_entry ''a'' ''Work'' JNull)] []"
proof -
  have 1: "is_read (Find_by_path ''Work/Notes'' ''page'')" by simp
  have 2: "is_read (Is_stale 0)" by simp
  have 3: "is_read (Get_title (JStr ''a''))" by simp
  from reads_leave_the_cache_unchanged [OF 1] reads_leave_the_cache_unchanged [OF 2]
    reads_leave_the_cache_unchanged [OF 3]
  show ?thesis by blast
qed

end
